theory Spec2Isabelle
  imports Complex_Main
begin

section \<open>The Ephemeris and Visibility Engine of nightsky (astronomy.js)\<close>

text \<open>
  A shallow embedding of \<^verbatim>\<open>frontend/js/astronomy.js\<close>. JavaScript numbers are
  idealised as real numbers: rounding of IEEE-754 doubles is not modelled. The special
  values are modelled where the program can produce them in exact arithmetic: a
  division whose divisor can be zero goes through \<open>js_div\<close>, and a number that can be
  \<open>NaN\<close> is a \<open>real option\<close> with \<open>None\<close> for \<open>NaN\<close>. Strings are lists of 8-bit
  characters, one per UTF-16 code unit below 256.
\<close>

subsection \<open>JavaScript primitives\<close>

datatype jsnum = Fin real | PosInf | NegInf | NaN

definition js_div :: "real \<Rightarrow> real \<Rightarrow> jsnum" where
  \<comment> \<open>\<^verbatim>\<open>x / y\<close>: a zero divisor gives an infinity of the dividend's sign, \<^verbatim>\<open>0/0\<close> gives NaN.\<close>
  "js_div x y =
     (if y \<noteq> 0 then Fin (x / y)
      else if x > 0 then PosInf
      else if x < 0 then NegInf
      else NaN)"

definition js_trunc :: "real \<Rightarrow> int" where
  \<comment> \<open>truncation toward zero, as \<^verbatim>\<open>new Date(number)\<close> does to its argument.\<close>
  "js_trunc x = (if x \<ge> 0 then \<lfloor>x\<rfloor> else \<lceil>x\<rceil>)"

definition js_rem :: "real \<Rightarrow> real \<Rightarrow> real" where
  \<comment> \<open>\<^verbatim>\<open>x % y\<close> for \<open>y \<noteq> 0\<close>: the remainder has the sign of the dividend.\<close>
  "js_rem x y = x - y * of_int (js_trunc (x / y))"

definition Math_round :: "real \<Rightarrow> int" where
  \<comment> \<open>\<^verbatim>\<open>Math.round\<close>: to the nearest integer, ties toward \<open>+\<infinity>\<close>.\<close>
  "Math_round x = \<lfloor>x + 1 / 2\<rfloor>"

definition Math_asin :: "real \<Rightarrow> real option" where
  "Math_asin x = (if -1 \<le> x \<and> x \<le> 1 then Some (arcsin x) else None)"

definition Math_acos :: "real \<Rightarrow> real option" where
  "Math_acos x = (if -1 \<le> x \<and> x \<le> 1 then Some (arccos x) else None)"

definition Math_atan2 :: "real \<Rightarrow> real \<Rightarrow> real" where
  "Math_atan2 y x =
     (if x > 0 then arctan (y / x)
      else if x < 0 \<and> y \<ge> 0 then arctan (y / x) + pi
      else if x < 0 then arctan (y / x) - pi
      else if y > 0 then pi / 2
      else if y < 0 then - (pi / 2)
      else 0)"

subsection \<open>Fundamental constants\<close>

definition DEG_TO_RAD :: real where "DEG_TO_RAD = pi / 180"
definition RAD_TO_DEG :: real where "RAD_TO_DEG = 180 / pi"
definition HOURS_TO_DEG :: real where "HOURS_TO_DEG = 15"
definition J2000 :: real where "J2000 = 2451545.0"
definition JULIAN_CENTURY :: real where "JULIAN_CENTURY = 36525"
definition OBLIQUITY_J2000 :: real where "OBLIQUITY_J2000 = 23.439291111"
definition OBLIQUITY_RATE :: real where "OBLIQUITY_RATE = -46.8150"
definition REFRACTION_HORIZON :: real where "REFRACTION_HORIZON = 0.5667"
definition SUN_HORIZON_ANGLE :: real where "SUN_HORIZON_ANGLE = -0.8333"
definition TWILIGHT_CIVIL :: real where "TWILIGHT_CIVIL = -6"
definition TWILIGHT_NAUTICAL :: real where "TWILIGHT_NAUTICAL = -12"
definition TWILIGHT_ASTRONOMICAL :: real where "TWILIGHT_ASTRONOMICAL = -18"
definition SIDEREAL_RATIO :: real where "SIDEREAL_RATIO = 1.00273790935"
definition GMST_AT_J2000 :: real where "GMST_AT_J2000 = 280.46061837"
definition GMST_RATE :: real where "GMST_RATE = 360.98564736629"
definition SUN_MEAN_LONGITUDE_J2000 :: real where "SUN_MEAN_LONGITUDE_J2000 = 280.461"
definition SUN_MEAN_LONGITUDE_RATE :: real where "SUN_MEAN_LONGITUDE_RATE = 0.9856474"
definition SUN_MEAN_ANOMALY_J2000 :: real where "SUN_MEAN_ANOMALY_J2000 = 357.528"
definition SUN_MEAN_ANOMALY_RATE :: real where "SUN_MEAN_ANOMALY_RATE = 0.9856003"
definition SUN_EOC_1 :: real where "SUN_EOC_1 = 1.915"
definition SUN_EOC_2 :: real where "SUN_EOC_2 = 0.020"

subsection \<open>Angle primitives\<close>

definition toRadians :: "real \<Rightarrow> real" where
  "toRadians degrees = degrees * DEG_TO_RAD"

definition toDegrees :: "real \<Rightarrow> real" where
  "toDegrees radians = radians * RAD_TO_DEG"

definition normalizeAngle :: "real \<Rightarrow> real" where
  "normalizeAngle angle =
     (let angle = js_rem angle 360 in if angle < 0 then angle + 360 else angle)"

definition normalizeAngleSigned :: "real \<Rightarrow> real" where
  "normalizeAngleSigned angle =
     (let angle = normalizeAngle angle in if angle > 180 then angle - 360 else angle)"

subsection \<open>Bortle scale\<close>

record BortleEntry =
  name :: string
  limitingMag :: real
  sqm :: real
  description :: string
  details :: string

definition BORTLE_SCALE :: "int \<rightharpoonup> BortleEntry" where
  "BORTLE_SCALE = map_of
    [(1, \<lparr>name = ''Excellent Dark-Sky Site'', limitingMag = 7.8, sqm = 21.99,
         description = ''Zodiacal light, gegenschein, and zodiacal band visible. Scorpius and Sagittarius regions of Milky Way cast obvious shadows. M33 easily visible with naked eye.'',
         details = ''Airglow is readily apparent. The Milky Way casts obvious shadows on the ground. Jupiter and Venus affect dark adaptation.''\<rparr>),
     (2, \<lparr>name = ''Typical Truly Dark Site'', limitingMag = 7.3, sqm = 21.89,
         description = ''Airglow weakly visible near horizon. M33 easily visible with naked eye. Summer Milky Way highly structured.'',
         details = ''Zodiacal light bright enough to cast shadows just before dawn and after dusk. Clouds appear as dark holes against the sky.''\<rparr>),
     (3, \<lparr>name = ''Rural Sky'', limitingMag = 6.8, sqm = 21.69,
         description = ''Some light pollution on horizon. Milky Way still appears complex. M15, M4, M5, M22 visible with naked eye.'',
         details = ''Zodiacal light obvious in spring and autumn. Clouds faintly illuminated near horizon, dark overhead.''\<rparr>),
     (4, \<lparr>name = ''Rural/Suburban Transition'', limitingMag = 6.3, sqm = 21.25,
         description = ''Light pollution domes visible in several directions. Milky Way visible but not striking. M31 obvious.'',
         details = ''Zodiacal light still visible but not striking. Clouds illuminated in directions of light sources.''\<rparr>),
     (5, \<lparr>name = ''Suburban Sky'', limitingMag = 5.8, sqm = 20.49,
         description = ''Milky Way very weak or invisible near horizon. Light sources visible in most directions. M31 visible but not obvious.'',
         details = ''Only hints of zodiacal light on best nights. Clouds notably brighter than sky background.''\<rparr>),
     (6, \<lparr>name = ''Bright Suburban Sky'', limitingMag = 5.3, sqm = 19.50,
         description = ''Milky Way only visible near zenith. Sky within 35'' @ [CHR 0xB0] @ '' of horizon glows grayish. M33 not visible, M31 difficult.'',
         details = ''No zodiacal light. Clouds quite bright. Any dark area in the sky appears impressive.''\<rparr>),
     (7, \<lparr>name = ''Suburban/Urban Transition'', limitingMag = 4.8, sqm = 18.94,
         description = ''Entire sky has grayish-white hue. Strong light sources in all directions. Milky Way invisible.'',
         details = ''Clouds brilliantly lit. Even high clouds glow. M44 and M31 may be glimpsed but are difficult.''\<rparr>),
     (8, \<lparr>name = ''City Sky'', limitingMag = 4.3, sqm = 18.38,
         description = ''Sky glows white or orange. Orion and other constellations visible but unimpressive. Many stars invisible.'',
         details = ''The sky is bright enough to read by. M31, M44, and M45 occasionally glimpsed by experienced observers.''\<rparr>),
     (9, \<lparr>name = ''Inner-City Sky'', limitingMag = 4.0, sqm = 17.80,
         description = ''Only Moon, planets, and a few brightest stars visible. Many constellations incomplete or unrecognizable.'',
         details = ''The entire sky appears bright. Only Sirius, Vega, and a handful of other stars visible on good nights.''\<rparr>)]"

definition getBortleInfo :: "real \<Rightarrow> BortleEntry option" where
  \<comment> \<open>\<open>None\<close> is \<^verbatim>\<open>undefined\<close>, what a lookup of an absent key gives.\<close>
  "getBortleInfo bortleClass =
     (let bortleClass = max 1 (min 9 (Math_round bortleClass))
      in BORTLE_SCALE bortleClass)"

definition sqmToBortle :: "real \<Rightarrow> int" where
  "sqmToBortle s =
     (if s \<ge> 21.99 then 1
      else if s \<ge> 21.89 then 2
      else if s \<ge> 21.69 then 3
      else if s \<ge> 21.25 then 4
      else if s \<ge> 20.49 then 5
      else if s \<ge> 19.50 then 6
      else if s \<ge> 18.94 then 7
      else if s \<ge> 18.38 then 8
      else 9)"

definition bortleToSqm :: "real \<Rightarrow> real option" where
  \<comment> \<open>\<open>None\<close> is the TypeError of reading \<^verbatim>\<open>.sqm\<close> of \<^verbatim>\<open>undefined\<close>.\<close>
  "bortleToSqm bortle =
     (case getBortleInfo bortle of None \<Rightarrow> None | Some info \<Rightarrow> Some (sqm info))"

subsection \<open>Visibility scoring\<close>

text \<open>
  A catalog object. \<open>ra\<close> and \<open>dec\<close> are a number or a string; \<open>magnitude\<close> is
  \<open>None\<close> when the property is not a number; \<open>size_arcmin\<close> is the value of
  \<^verbatim>\<open>parseFloat(obj.size)\<close> when \<^verbatim>\<open>obj.size\<close> is truthy and parses to a number,
  and \<open>None\<close> otherwise (either way the program then adds no size bonus).
\<close>

datatype coord = CNum real | CStr string

record CatalogObject =
  ra :: coord
  dec :: coord
  magnitude :: "real option"
  size_arcmin :: "real option"

definition altitudeScore :: "real \<Rightarrow> real" where
  \<comment> \<open>the altitude factor of \<^verbatim>\<open>calculateVisibilityScore\<close> (0 to 50 points).\<close>
  "altitudeScore altitude =
     (if altitude < 15 then altitude * 1.5
      else if altitude < 30 then 22.5 + (altitude - 15) * 1.0
      else if altitude < 70 then 37.5 + (altitude - 30) * 0.3125
      else 50 - (altitude - 70) * 0.5)"

definition brightnessScore :: "real option \<Rightarrow> real" where
  \<comment> \<open>the brightness factor; a NaN \<^verbatim>\<open>magDiff\<close> fails every comparison and takes the last branch.\<close>
  "brightnessScore magDiff =
     (case magDiff of
        None \<Rightarrow> 30
      | Some md \<Rightarrow>
          if md < -2 then 0
          else if md < 0 then (md + 2) * 5
          else if md < 3 then 10 + md * 6.67
          else 30)"

definition sizeScore :: "real option \<Rightarrow> real" where
  "sizeScore sz =
     (case sz of
        None \<Rightarrow> 0
      | Some sizeArcmin \<Rightarrow> if sizeArcmin > 5 then min 20 (sizeArcmin / 3) else 0)"

definition calculateVisibilityScore :: "CatalogObject \<Rightarrow> real option \<Rightarrow> real \<Rightarrow> int option" where
  \<comment> \<open>the altitude is \<open>None\<close> when it is NaN; the result is then NaN (\<open>None\<close>) too.\<close>
  "calculateVisibilityScore obj altitude limMag =
     (case altitude of
        None \<Rightarrow> None
      | Some alt \<Rightarrow>
          if alt < 0 then Some 0
          else
            let score = 0;
                score = score + altitudeScore alt;
                magDiff = map_option (\<lambda>m. limMag - m) (magnitude obj);
                score = score + brightnessScore magDiff;
                score = score + sizeScore (size_arcmin obj)
            in Some (min 100 (max 0 (Math_round score))))"

subsection \<open>Dates\<close>

text \<open>
  A \<^verbatim>\<open>Date\<close> that the program reads is the record of its UTC fields, as the
  getters \<^verbatim>\<open>getUTCFullYear\<close>, \<^verbatim>\<open>getUTCMonth\<close> (0 to 11), \<^verbatim>\<open>getUTCDate\<close>, ... return
  them. A \<^verbatim>\<open>Date\<close> that the program builds from a number is its time value, the
  milliseconds since 1970-01-01T00:00:00Z; the bound of \<^verbatim>\<open>TimeClip\<close> on time values is
  not modelled. The functions \<open>DayFromYear\<close> to \<open>Date_UTC\<close> are those of ECMA-262
  (section Date Objects), which the built-in \<^verbatim>\<open>Date.UTC\<close> and \<^verbatim>\<open>getTime\<close> follow.
\<close>

record Instant =
  utcFullYear :: int
  utcMonth :: int
  utcDate :: int
  utcHours :: int
  utcMinutes :: int
  utcSeconds :: int
  utcMilliseconds :: int

datatype jsdate = Date int | InvalidDate

definition InLeapYear :: "int \<Rightarrow> bool" where
  "InLeapYear y = (y mod 4 = 0 \<and> (y mod 100 \<noteq> 0 \<or> y mod 400 = 0))"

definition DayFromYear :: "int \<Rightarrow> int" where
  "DayFromYear y =
     365 * (y - 1970) + (y - 1969) div 4 - (y - 1901) div 100 + (y - 1601) div 400"

definition DaysInMonth :: "int \<Rightarrow> int \<Rightarrow> int" where
  \<comment> \<open>the month is 0-based.\<close>
  "DaysInMonth y mn =
     (if mn = 1 then (if InLeapYear y then 29 else 28)
      else if mn = 3 \<or> mn = 5 \<or> mn = 8 \<or> mn = 10 then 30
      else 31)"

definition DayWithinYear :: "int \<Rightarrow> int \<Rightarrow> int" where
  \<comment> \<open>the number of days of year \<open>y\<close> before its 0-based month \<open>mn\<close>.\<close>
  "DayWithinYear y mn = (\<Sum>k \<leftarrow> [0..mn - 1]. DaysInMonth y k)"

definition MakeDay :: "int \<Rightarrow> int \<Rightarrow> int \<Rightarrow> int" where
  "MakeDay yr month dt =
     (let ym = yr + month div 12; mn = month mod 12
      in DayFromYear ym + DayWithinYear ym mn + dt - 1)"

definition MakeTime :: "int \<Rightarrow> int \<Rightarrow> int \<Rightarrow> int \<Rightarrow> int" where
  "MakeTime hour mins sec ms = hour * 3600000 + mins * 60000 + sec * 1000 + ms"

definition MakeDate :: "int \<Rightarrow> int \<Rightarrow> int" where
  "MakeDate dy tm = dy * 86400000 + tm"

definition Date_UTC :: "int \<Rightarrow> int \<Rightarrow> int \<Rightarrow> int \<Rightarrow> int \<Rightarrow> int \<Rightarrow> int \<Rightarrow> int" where
  \<comment> \<open>\<^verbatim>\<open>Date.UTC\<close>: a year from 0 to 99 stands for 1900 to 1999.\<close>
  "Date_UTC y month dt hour mins sec ms =
     (let yr = (if 0 \<le> y \<and> y \<le> 99 then 1900 + y else y)
      in MakeDate (MakeDay yr month dt) (MakeTime hour mins sec ms))"

definition getTime :: "Instant \<Rightarrow> int" where
  \<comment> \<open>the time value of the \<^verbatim>\<open>Date\<close> that has these UTC fields.\<close>
  "getTime date =
     MakeDate (MakeDay (utcFullYear date) (utcMonth date) (utcDate date))
       (MakeTime (utcHours date) (utcMinutes date) (utcSeconds date) (utcMilliseconds date))"

definition setUTCHours0 :: "Instant \<Rightarrow> Instant" where
  \<comment> \<open>\<^verbatim>\<open>setUTCHours(0, 0, 0, 0)\<close>.\<close>
  "setUTCHours0 date =
     date\<lparr>utcHours := 0, utcMinutes := 0, utcSeconds := 0, utcMilliseconds := 0\<rparr>"

definition addOneDay :: "Instant \<Rightarrow> Instant" where
  \<comment> \<open>\<^verbatim>\<open>setDate(getDate() + 1)\<close>, the host's time zone taken to be UTC: the next
      calendar day at the same time of day.\<close>
  "addOneDay date =
     (if utcDate date < DaysInMonth (utcFullYear date) (utcMonth date)
      then date\<lparr>utcDate := utcDate date + 1\<rparr>
      else if utcMonth date < 11
      then date\<lparr>utcMonth := utcMonth date + 1, utcDate := 1\<rparr>
      else date\<lparr>utcFullYear := utcFullYear date + 1, utcMonth := 0, utcDate := 1\<rparr>)"

definition newDate :: "real \<Rightarrow> jsdate" where
  \<comment> \<open>\<^verbatim>\<open>new Date(number)\<close> for a number that is not NaN.\<close>
  "newDate t = Date (js_trunc t)"

definition validInstant :: "Instant \<Rightarrow> bool" where
  \<comment> \<open>the fields of a civil instant: a day that its month has, a time of day.\<close>
  "validInstant date =
     (0 \<le> utcMonth date \<and> utcMonth date \<le> 11 \<and>
      1 \<le> utcDate date \<and> utcDate date \<le> DaysInMonth (utcFullYear date) (utcMonth date) \<and>
      0 \<le> utcHours date \<and> utcHours date \<le> 23 \<and>
      0 \<le> utcMinutes date \<and> utcMinutes date \<le> 59 \<and>
      0 \<le> utcSeconds date \<and> utcSeconds date \<le> 59 \<and>
      0 \<le> utcMilliseconds date \<and> utcMilliseconds date \<le> 999)"

definition sinceGregorianReform :: "Instant \<Rightarrow> bool" where
  \<comment> \<open>on or after 1582-10-15, the first day of the Gregorian calendar.\<close>
  "sinceGregorianReform date =
     (utcFullYear date > 1582 \<or>
      (utcFullYear date = 1582 \<and>
       (utcMonth date > 9 \<or> (utcMonth date = 9 \<and> utcDate date \<ge> 15))))"

subsection \<open>Julian Date\<close>

text \<open>
  The two conversions over the reals. The program computes them in doubles: the Julian
  Date of an instant that is not a midnight is rounded, by less than \<open>10\<^sup>-\<^sup>9\<close> of a day for
  dates of this era, and the round trip depends on the sign of that rounding. It is not
  part of these definitions; the round-trip theorem carries it as an explicit
  perturbation of the Julian Date.
\<close>

definition dateToJulian :: "Instant \<Rightarrow> real" where
  "dateToJulian date =
     (let y = utcFullYear date;
          m = utcMonth date + 1;
          d = utcDate date;
          h = real_of_int (utcHours date) + real_of_int (utcMinutes date) / 60 +
              real_of_int (utcSeconds date) / 3600 + real_of_int (utcMilliseconds date) / 3600000;
          jy = (if m \<le> 2 then y - 1 else y);
          jm = (if m \<le> 2 then m + 12 else m);
          a = \<lfloor>real_of_int jy / 100\<rfloor>;
          b = 2 - a + \<lfloor>real_of_int a / 4\<rfloor>
      in real_of_int \<lfloor>365.25 * real_of_int (jy + 4716)\<rfloor> +
         real_of_int \<lfloor>30.6001 * real_of_int (jm + 1)\<rfloor> +
         real_of_int d + h / 24 + real_of_int b - 1524.5)"

definition julianToDate :: "real \<Rightarrow> int" where
  \<comment> \<open>the result is the time value of the \<^verbatim>\<open>Date\<close> returned.\<close>
  "julianToDate jd =
     (let z = \<lfloor>jd + 0.5\<rfloor>;
          f = jd + 0.5 - real_of_int z;
          a = (if z \<ge> 2299161
               then (let alpha = \<lfloor>(real_of_int z - 1867216.25) / 36524.25\<rfloor>
                     in z + 1 + alpha - \<lfloor>real_of_int alpha / 4\<rfloor>)
               else z);
          b = a + 1524;
          c = \<lfloor>(real_of_int b - 122.1) / 365.25\<rfloor>;
          d = \<lfloor>365.25 * real_of_int c\<rfloor>;
          e = \<lfloor>real_of_int (b - d) / 30.6001\<rfloor>;
          dy = real_of_int (b - d - \<lfloor>30.6001 * real_of_int e\<rfloor>) + f;
          month = (if e < 14 then e - 1 else e - 13);
          yr = (if month > 2 then c - 4716 else c - 4715);
          dayFrac = dy - real_of_int \<lfloor>dy\<rfloor>;
          hrs = dayFrac * 24;
          mins = (hrs - real_of_int \<lfloor>hrs\<rfloor>) * 60;
          secs = (mins - real_of_int \<lfloor>mins\<rfloor>) * 60
      in Date_UTC yr (month - 1) \<lfloor>dy\<rfloor> \<lfloor>hrs\<rfloor> \<lfloor>mins\<rfloor> \<lfloor>secs\<rfloor> 0)"

definition julianCenturies :: "real \<Rightarrow> real" where
  "julianCenturies jd = (jd - J2000) / JULIAN_CENTURY"

subsection \<open>Sidereal time and obliquity\<close>

definition gmst :: "real \<Rightarrow> real" where
  "gmst jd =
     (let d = jd - J2000;
          t = d / JULIAN_CENTURY;
          g = GMST_AT_J2000 + GMST_RATE * d + 0.000387933 * t * t - t * t * t / 38710000
      in normalizeAngle g)"

definition lst :: "real \<Rightarrow> real \<Rightarrow> real" where
  "lst jd longitude = normalizeAngle (gmst jd + longitude)"

definition meanObliquity :: "real \<Rightarrow> real" where
  "meanObliquity jd =
     (let t = julianCenturies jd
      in OBLIQUITY_J2000 +
         (OBLIQUITY_RATE * t + -0.00059 * t * t + 0.001813 * t * t * t) / 3600)"

subsection \<open>Coordinate transformation\<close>

record AltAz =
  altitude :: "real option"
  azimuth :: "real option"

definition clamp_unit :: "jsnum \<Rightarrow> real option" where
  \<comment> \<open>\<^verbatim>\<open>Math.max(-1, Math.min(1, x))\<close>: NaN stays NaN.\<close>
  "clamp_unit x =
     (case x of
        Fin v \<Rightarrow> Some (max (-1) (min 1 v))
      | PosInf \<Rightarrow> Some 1
      | NegInf \<Rightarrow> Some (-1)
      | NaN \<Rightarrow> None)"

definition raDecToAltAz :: "real \<Rightarrow> real \<Rightarrow> real \<Rightarrow> real \<Rightarrow> AltAz" where
  "raDecToAltAz r d lat lstv =
     (let ha = toRadians (lstv - r);
          decRad = toRadians d;
          latRad = toRadians lat;
          sinAlt = sin decRad * sin latRad + cos decRad * cos latRad * cos ha
      in case Math_asin sinAlt of
           None \<Rightarrow> \<lparr>altitude = None, azimuth = None\<rparr>
         | Some asinAlt \<Rightarrow>
             let cosAz = js_div (sin decRad - sin latRad * sinAlt) (cos latRad * cos asinAlt);
                 az = (case clamp_unit cosAz of
                         None \<Rightarrow> None
                       | Some c \<Rightarrow> map_option toDegrees (Math_acos c));
                 az = (if sin ha > 0 then map_option (\<lambda>a. 360 - a) az else az)
             in \<lparr>altitude = Some (toDegrees asinAlt), azimuth = az\<rparr>)"





subsection \<open>Rise, transit and set\<close>

record RiseTransitSet =
  rise :: "jsdate option"
  transit :: "jsdate option"
  set_t :: "jsdate option"
  circumpolar :: bool
  neverRises :: bool

definition calculateTransit :: "real \<Rightarrow> real \<Rightarrow> Instant \<Rightarrow> int" where
  \<comment> \<open>the result is the time value of the \<^verbatim>\<open>Date\<close> returned.\<close>
  "calculateTransit r lon date =
     (let midnight = setUTCHours0 date;
          jd = dateToJulian midnight;
          lst0 = lst jd lon;
          hourAngle = r - lst0;
          hourAngle = (if hourAngle < 0 then hourAngle + 360 else hourAngle);
          hourAngle = (if hourAngle > 180 then hourAngle - 360 else hourAngle);
          hoursUntilTransit = hourAngle / HOURS_TO_DEG;
          transitMs = hoursUntilTransit * 3600000 / SIDEREAL_RATIO
      in js_trunc (real_of_int (getTime midnight) + transitMs))"

definition calculateRiseTransitSet ::
  "real \<Rightarrow> real \<Rightarrow> real \<Rightarrow> real \<Rightarrow> Instant \<Rightarrow> real \<Rightarrow> RiseTransitSet" where
  \<comment> \<open>a flag that the returned object does not have reads as \<open>False\<close>; a NaN \<^verbatim>\<open>cosH\<close> fails
      both comparisons and gives invalid rise and set dates.\<close>
  "calculateRiseTransitSet r d lat lon date horizonAngle =
     (let decRad = toRadians d;
          latRad = toRadians lat;
          h0Rad = toRadians horizonAngle;
          cosH = js_div (sin h0Rad - sin latRad * sin decRad) (cos latRad * cos decRad);
          isCircumpolar = (case cosH of Fin c \<Rightarrow> c < -1 | NegInf \<Rightarrow> True | _ \<Rightarrow> False);
          isNeverRises = (case cosH of Fin c \<Rightarrow> c > 1 | PosInf \<Rightarrow> True | _ \<Rightarrow> False)
      in if isCircumpolar then
           \<lparr>rise = None, transit = Some (Date (calculateTransit r lon date)), set_t = None,
            circumpolar = True, neverRises = False\<rparr>
         else if isNeverRises then
           \<lparr>rise = None, transit = None, set_t = None, circumpolar = False, neverRises = True\<rparr>
         else
           let transitT = calculateTransit r lon date
           in case cosH of
                Fin c \<Rightarrow>
                  let H = toDegrees (arccos c);
                      riseOffset = H / HOURS_TO_DEG * 3600000
                  in \<lparr>rise = Some (newDate (real_of_int transitT - riseOffset)),
                      transit = Some (Date transitT),
                      set_t = Some (newDate (real_of_int transitT + riseOffset)),
                      circumpolar = False, neverRises = False\<rparr>
              | _ \<Rightarrow>
                  \<lparr>rise = Some InvalidDate, transit = Some (Date transitT),
                   set_t = Some InvalidDate, circumpolar = False, neverRises = False\<rparr>)"

subsection \<open>Sun position and twilight\<close>

record SunPosition =
  sun_ra :: real
  sun_dec :: real
  sun_longitude :: real
  sun_distance :: real

definition approximateSunPosition :: "Instant \<Rightarrow> SunPosition" where
  \<comment> \<open>the argument of \<^verbatim>\<open>Math.asin\<close> is a product of two sines, so it is in \<open>[-1, 1]\<close>.\<close>
  "approximateSunPosition date =
     (let jd = dateToJulian date;
          n = jd - J2000;
          t = n / JULIAN_CENTURY;
          L = normalizeAngle (SUN_MEAN_LONGITUDE_J2000 + SUN_MEAN_LONGITUDE_RATE * n);
          g = normalizeAngle (SUN_MEAN_ANOMALY_J2000 + SUN_MEAN_ANOMALY_RATE * n);
          gRad = toRadians g;
          C = SUN_EOC_1 * sin gRad + SUN_EOC_2 * sin (2 * gRad);
          lambda = L + C;
          epsilon = meanObliquity jd;
          epsilonRad = toRadians epsilon;
          lambdaRad = toRadians lambda;
          r = toDegrees (Math_atan2 (cos epsilonRad * sin lambdaRad) (cos lambdaRad));
          d = toDegrees (arcsin (sin epsilonRad * sin lambdaRad));
          distance = 1.00014 - 0.01671 * cos gRad - 0.00014 * cos (2 * gRad)
      in \<lparr>sun_ra = normalizeAngle r, sun_dec = d, sun_longitude = lambda,
          sun_distance = distance\<rparr>)"

record SunRiseSet =
  sr_rise :: "jsdate option"
  sr_set :: "jsdate option"
  polarDay :: bool
  polarNight :: bool

definition calculateSunRiseSet ::
  "real \<Rightarrow> real \<Rightarrow> real \<Rightarrow> Instant \<Rightarrow> real \<Rightarrow> SunRiseSet" where
  \<comment> \<open>a flag that the returned object does not have reads as \<open>False\<close>.\<close>
  "calculateSunRiseSet sunDec lat lon date h0 =
     (let decRad = toRadians sunDec;
          latRad = toRadians lat;
          h0Rad = toRadians h0;
          cosH = js_div (sin h0Rad - sin latRad * sin decRad) (cos latRad * cos decRad);
          below = (case cosH of Fin c \<Rightarrow> c < -1 | NegInf \<Rightarrow> True | _ \<Rightarrow> False);
          above = (case cosH of Fin c \<Rightarrow> c > 1 | PosInf \<Rightarrow> True | _ \<Rightarrow> False)
      in if below \<or> above then
           \<lparr>sr_rise = None, sr_set = None, polarDay = below, polarNight = above\<rparr>
         else
           let sunPos = approximateSunPosition date;
               transitT = calculateTransit (sun_ra sunPos) lon date
           in case cosH of
                Fin c \<Rightarrow>
                  let H = toDegrees (arccos c);
                      riseOffset = H / HOURS_TO_DEG * 3600000
                  in \<lparr>sr_rise = Some (newDate (real_of_int transitT - riseOffset)),
                      sr_set = Some (newDate (real_of_int transitT + riseOffset)),
                      polarDay = False, polarNight = False\<rparr>
              | _ \<Rightarrow>
                  \<lparr>sr_rise = Some InvalidDate, sr_set = Some InvalidDate,
                   polarDay = False, polarNight = False\<rparr>)"

record TwilightTimes =
  tw_date :: Instant
  sunPosition :: SunPosition
  sunrise :: "jsdate option"
  sunset :: "jsdate option"
  civilDawn :: "jsdate option"
  civilDusk :: "jsdate option"
  nauticalDawn :: "jsdate option"
  nauticalDusk :: "jsdate option"
  astronomicalDawn :: "jsdate option"
  astronomicalDusk :: "jsdate option"
  darknessDuration :: "jsnum option"

definition twilightEvents :: "real \<Rightarrow> real \<Rightarrow> Instant \<Rightarrow> TwilightTimes" where
  \<comment> \<open>the part of \<^verbatim>\<open>calculateTwilightTimes\<close> before its recursive call: the loop over
      the eight events; \<open>darknessDuration\<close> is not set yet.\<close>
  "twilightEvents lat lon date =
     (let sunCoords = approximateSunPosition date;
          times = (\<lambda>angle. calculateSunRiseSet (sun_dec sunCoords) lat lon date angle)
      in \<lparr>tw_date = date, sunPosition = sunCoords,
          sunrise = sr_rise (times SUN_HORIZON_ANGLE),
          sunset = sr_set (times SUN_HORIZON_ANGLE),
          civilDawn = sr_rise (times TWILIGHT_CIVIL),
          civilDusk = sr_set (times TWILIGHT_CIVIL),
          nauticalDawn = sr_rise (times TWILIGHT_NAUTICAL),
          nauticalDusk = sr_set (times TWILIGHT_NAUTICAL),
          astronomicalDawn = sr_rise (times TWILIGHT_ASTRONOMICAL),
          astronomicalDusk = sr_set (times TWILIGHT_ASTRONOMICAL),
          darknessDuration = None\<rparr>)"

definition dateDiffHours :: "jsdate \<Rightarrow> jsdate \<Rightarrow> jsnum" where
  \<comment> \<open>\<^verbatim>\<open>(a - b) / 3600000\<close> on two dates; an invalid date makes it NaN.\<close>
  "dateDiffHours a b =
     (case (a, b) of
        (Date x, Date y) \<Rightarrow> Fin (real_of_int (x - y) / 3600000)
      | _ \<Rightarrow> NaN)"

fun calculateTwilightTimes :: "nat \<Rightarrow> real \<Rightarrow> real \<Rightarrow> Instant \<Rightarrow> TwilightTimes option" where
  \<comment> \<open>the first argument bounds the depth of nested calls: \<open>Suc n\<close> allows this call and
      \<open>n\<close> nested ones below it; \<open>None\<close> when the bound does not suffice.\<close>
  "calculateTwilightTimes 0 lat lon date = None"
| "calculateTwilightTimes (Suc depth) lat lon date =
     (let result = twilightEvents lat lon date
      in case (astronomicalDusk result, astronomicalDawn result) of
           (Some dusk, Some dawn) \<Rightarrow>
             (let nextDate = addOneDay date
              in case calculateTwilightTimes depth lat lon nextDate of
                   None \<Rightarrow> None
                 | Some nextTwilight \<Rightarrow>
                     (case astronomicalDawn nextTwilight of
                        Some nextDawn \<Rightarrow>
                          Some (result\<lparr>darknessDuration := Some (dateDiffHours nextDawn dusk)\<rparr>)
                      | None \<Rightarrow> Some result))
         | _ \<Rightarrow> Some result)"

subsection \<open>Coordinate parsing\<close>

text \<open>
  The regular expressions of \<^verbatim>\<open>parseCoordinate\<close> are written out as matchers. In each
  of them a greedy quantifier is followed by a character class disjoint from its own (or by
  optional parts only), so backtracking finds no match that the longest runs do not give;
  an unanchored expression is tried at each start position from the left.
\<close>

definition is_digit :: "char \<Rightarrow> bool" where
  "is_digit c = (c \<in> set ''0123456789'')"

definition is_space :: "char \<Rightarrow> bool" where
  \<comment> \<open>the white space and line terminators of JavaScript below U+0100 (\<^verbatim>\<open>\s\<close>, \<^verbatim>\<open>trim\<close>).\<close>
  "is_space c =
     (c = CHR 0x09 \<or> c = CHR 0x0A \<or> c = CHR 0x0B \<or> c = CHR 0x0C \<or> c = CHR 0x0D \<or>
      c = CHR 0x20 \<or> c = CHR 0xA0)"

definition trim :: "string \<Rightarrow> string" where
  "trim s = rev (dropWhile is_space (rev (dropWhile is_space s)))"

definition optChar :: "(char \<Rightarrow> bool) \<Rightarrow> string \<Rightarrow> string \<times> string" where
  \<comment> \<open>an optional single character of a class: what it matched and the rest.\<close>
  "optChar P s = (case s of [] \<Rightarrow> ([], []) | c # cs \<Rightarrow> if P c then ([c], cs) else ([], s))"

definition digitValue :: "char \<Rightarrow> nat" where
  "digitValue c = of_char c - of_char (CHR ''0'')"

definition digitsValue :: "string \<Rightarrow> nat" where
  "digitsValue ds = foldl (\<lambda>acc c. 10 * acc + digitValue c) 0 ds"

definition parseFloat :: "string \<Rightarrow> real" where
  \<comment> \<open>\<^verbatim>\<open>parseFloat\<close> on the strings that the patterns capture: an optional sign, digits,
      and optionally a point and further digits. Other strings are not modelled.\<close>
  "parseFloat s =
     (let (sgn, r0) = optChar (\<lambda>c. c = CHR ''+'' \<or> c = CHR ''-'') s;
          ds = takeWhile is_digit r0;
          r1 = dropWhile is_digit r0;
          (dot, r2) = optChar (\<lambda>c. c = CHR ''.'') r1;
          fs = (if dot = [] then [] else takeWhile is_digit r2);
          v = real (digitsValue ds) + real (digitsValue fs) / 10 ^ length fs
      in if sgn = ''-'' then - v else v)"

definition matchDecimal :: "string \<Rightarrow> string option" where
  \<comment> \<open>\<^verbatim>\<open>/^([+-]?\d+\.?\d*)\<degree>?$/\<close>: the first group of the match.\<close>
  "matchDecimal s =
     (let (sgn, r0) = optChar (\<lambda>c. c = CHR ''+'' \<or> c = CHR ''-'') s;
          ds = takeWhile is_digit r0;
          r1 = dropWhile is_digit r0;
          (dot, r2) = optChar (\<lambda>c. c = CHR ''.'') r1;
          fs = takeWhile is_digit r2;
          r3 = dropWhile is_digit r2;
          (deg, r4) = optChar (\<lambda>c. c = CHR 0xB0) r3
      in if ds \<noteq> [] \<and> r4 = [] then Some (sgn @ ds @ dot @ fs) else None)"

definition matchNumberAt :: "string \<Rightarrow> (string \<times> string) option" where
  \<comment> \<open>\<^verbatim>\<open>(\d+\.?\d*)\<close> at the head of the string: the group and the rest.\<close>
  "matchNumberAt s =
     (let ds = takeWhile is_digit s;
          r1 = dropWhile is_digit s;
          (dot, r2) = optChar (\<lambda>c. c = CHR ''.'') r1;
          fs = takeWhile is_digit r2;
          r3 = dropWhile is_digit r2
      in if ds \<noteq> [] then Some (ds @ dot @ fs, r3) else None)"

definition matchHmsAt :: "string \<Rightarrow> (string \<times> string \<times> string) option" where
  \<comment> \<open>\<^verbatim>\<open>/(\d+)[h:\s]+(\d+)[m:\s]+(\d+\.?\d*)s?/i\<close> at the head of the string: the three groups.\<close>
  "matchHmsAt s =
     (let sep1 = (\<lambda>c. c = CHR ''h'' \<or> c = CHR ''H'' \<or> c = CHR '':'' \<or> is_space c);
          sep2 = (\<lambda>c. c = CHR ''m'' \<or> c = CHR ''M'' \<or> c = CHR '':'' \<or> is_space c);
          g1 = takeWhile is_digit s;
          r1 = dropWhile is_digit s;
          s1 = takeWhile sep1 r1;
          r2 = dropWhile sep1 r1;
          g2 = takeWhile is_digit r2;
          r3 = dropWhile is_digit r2;
          s2 = takeWhile sep2 r3;
          r4 = dropWhile sep2 r3
      in if g1 \<noteq> [] \<and> s1 \<noteq> [] \<and> g2 \<noteq> [] \<and> s2 \<noteq> [] then
           (case matchNumberAt r4 of None \<Rightarrow> None | Some (g3, _) \<Rightarrow> Some (g1, g2, g3))
         else None)"

definition matchHourAt :: "string \<Rightarrow> string option" where
  \<comment> \<open>\<^verbatim>\<open>/(\d+\.?\d*)h/i\<close> at the head of the string: the group.\<close>
  "matchHourAt s =
     (case matchNumberAt s of
        None \<Rightarrow> None
      | Some (g, r) \<Rightarrow>
          (case r of
             [] \<Rightarrow> None
           | c # _ \<Rightarrow> if c = CHR ''h'' \<or> c = CHR ''H'' then Some g else None))"

definition matchDmsAt :: "string \<Rightarrow> (string \<times> string \<times> string) option" where
  \<comment> \<open>\<^verbatim>\<open>/([+-]?\d+)[\<degree>:\s]+(\d+)[\':\s]+(\d+\.?\d*)[\"s]?/i\<close> at the head of the string:
      the three groups.\<close>
  "matchDmsAt s =
     (let sep1 = (\<lambda>c. c = CHR 0xB0 \<or> c = CHR '':'' \<or> is_space c);
          sep2 = (\<lambda>c. c = CHR 0x27 \<or> c = CHR '':'' \<or> is_space c);
          (sgn, r0) = optChar (\<lambda>c. c = CHR ''+'' \<or> c = CHR ''-'') s;
          g1 = takeWhile is_digit r0;
          r1 = dropWhile is_digit r0;
          s1 = takeWhile sep1 r1;
          r2 = dropWhile sep1 r1;
          g2 = takeWhile is_digit r2;
          r3 = dropWhile is_digit r2;
          s2 = takeWhile sep2 r3;
          r4 = dropWhile sep2 r3
      in if g1 \<noteq> [] \<and> s1 \<noteq> [] \<and> g2 \<noteq> [] \<and> s2 \<noteq> [] then
           (case matchNumberAt r4 of None \<Rightarrow> None | Some (g3, _) \<Rightarrow> Some (sgn @ g1, g2, g3))
         else None)"

fun searchFrom :: "(string \<Rightarrow> 'a option) \<Rightarrow> string \<Rightarrow> 'a option" where
  \<comment> \<open>\<^verbatim>\<open>str.match\<close> of an unanchored expression: the leftmost start position that matches.\<close>
  "searchFrom m [] = m []"
| "searchFrom m (c # cs) = (case m (c # cs) of Some r \<Rightarrow> Some r | None \<Rightarrow> searchFrom m cs)"

definition parseCoordinate :: "string \<Rightarrow> string \<Rightarrow> real option" where
  \<comment> \<open>\<open>None\<close> is \<^verbatim>\<open>null\<close>.\<close>
  "parseCoordinate str type =
     (let str = trim str
      in case matchDecimal str of
           Some g \<Rightarrow> Some (parseFloat g)
         | None \<Rightarrow>
             let raResult =
                   (if type = ''ra'' then
                      (case searchFrom matchHmsAt str of
                         Some (g1, g2, g3) \<Rightarrow>
                           Some ((parseFloat g1 + parseFloat g2 / 60 + parseFloat g3 / 3600)
                                 * HOURS_TO_DEG)
                       | None \<Rightarrow>
                           (case searchFrom matchHourAt str of
                              Some g \<Rightarrow> Some (parseFloat g * HOURS_TO_DEG)
                            | None \<Rightarrow> None))
                    else None)
             in case raResult of
                  Some v \<Rightarrow> Some v
                | None \<Rightarrow>
                    if type = ''dec'' then
                      (case searchFrom matchDmsAt str of
                         Some (g1, g2, g3) \<Rightarrow>
                           let sgn = (if take 1 g1 = ''-'' then -1 else 1);
                               degs = \<bar>parseFloat g1\<bar>
                           in Some (sgn * (degs + parseFloat g2 / 60 + parseFloat g3 / 3600))
                       | None \<Rightarrow> None)
                    else None)"

subsection \<open>Planets\<close>

text \<open>
  The tables \<^verbatim>\<open>PLANETS\<close> and \<^verbatim>\<open>PLANET_RADII\<close> are maps from the property name;
  properties that a JavaScript object inherits from \<^verbatim>\<open>Object.prototype\<close> are not
  modelled. \<open>p_symbol\<close> is the code point of the planet's one-character symbol. The
  fields \<open>p_a\<close>, \<open>p_e\<close>, ... are the source's \<^verbatim>\<open>a\<close>, \<^verbatim>\<open>e\<close>, ...
\<close>

record Planet =
  p_name :: string
  p_symbol :: nat
  p_a :: real
  p_e :: real
  p_I :: real
  p_L :: real
  p_longPeri :: real
  p_longNode :: real
  p_aRate :: real
  p_eRate :: real
  p_IRate :: real
  p_LRate :: real
  p_longPeriRate :: real
  p_longNodeRate :: real
  p_siderealPeriod :: real
  p_synodicPeriod :: "real option"
  p_maxElongation :: "(real \<times> real) option"
  p_apparentMagRange :: "(real \<times> real) option"
  p_angularDiamRange :: "(real \<times> real) option"

definition PLANETS :: "string \<rightharpoonup> Planet" where
  "PLANETS = map_of
    [(''mercury'', \<lparr>p_name = ''Mercury'', p_symbol = 0x263F,
         p_a = 0.38709927, p_e = 0.20563593, p_I = 7.00497902, p_L = 252.25032350,
         p_longPeri = 77.45779628, p_longNode = 48.33076593,
         p_aRate = 0.00000037, p_eRate = 0.00001906, p_IRate = (-0.00594749), p_LRate = 149472.67411175,
         p_longPeriRate = 0.16047689, p_longNodeRate = (-0.12534081),
         p_siderealPeriod = 87.969, p_synodicPeriod = Some 115.88,
         p_maxElongation = Some (18, 28), p_apparentMagRange = Some (-2.6, 5.7), p_angularDiamRange = Some (4.5, 13.0)\<rparr>),
     (''venus'', \<lparr>p_name = ''Venus'', p_symbol = 0x2640,
         p_a = 0.72333566, p_e = 0.00677672, p_I = 3.39467605, p_L = 181.97909950,
         p_longPeri = 131.60246718, p_longNode = 76.67984255,
         p_aRate = 0.00000390, p_eRate = (-0.00004107), p_IRate = (-0.00078890), p_LRate = 58517.81538729,
         p_longPeriRate = 0.00268329, p_longNodeRate = (-0.27769418),
         p_siderealPeriod = 224.701, p_synodicPeriod = Some 583.92,
         p_maxElongation = Some (45, 47), p_apparentMagRange = Some (-4.9, -3.8), p_angularDiamRange = Some (9.7, 66.0)\<rparr>),
     (''earth'', \<lparr>p_name = ''Earth'', p_symbol = 0x2295,
         p_a = 1.00000261, p_e = 0.01671123, p_I = (-0.00001531), p_L = 100.46457166,
         p_longPeri = 102.93768193, p_longNode = 0.0,
         p_aRate = 0.00000562, p_eRate = (-0.00004392), p_IRate = (-0.01294668), p_LRate = 35999.37244981,
         p_longPeriRate = 0.32327364, p_longNodeRate = 0.0,
         p_siderealPeriod = 365.256, p_synodicPeriod = None,
         p_maxElongation = None, p_apparentMagRange = None, p_angularDiamRange = None\<rparr>),
     (''mars'', \<lparr>p_name = ''Mars'', p_symbol = 0x2642,
         p_a = 1.52371034, p_e = 0.09339410, p_I = 1.84969142, p_L = (-4.55343205),
         p_longPeri = (-23.94362959), p_longNode = 49.55953891,
         p_aRate = 0.00001847, p_eRate = 0.00007882, p_IRate = (-0.00813131), p_LRate = 19140.30268499,
         p_longPeriRate = 0.44441088, p_longNodeRate = (-0.29257343),
         p_siderealPeriod = 686.980, p_synodicPeriod = Some 779.94,
         p_maxElongation = None, p_apparentMagRange = Some (-2.94, 1.86), p_angularDiamRange = Some (3.5, 25.1)\<rparr>),
     (''jupiter'', \<lparr>p_name = ''Jupiter'', p_symbol = 0x2643,
         p_a = 5.20288700, p_e = 0.04838624, p_I = 1.30439695, p_L = 34.39644051,
         p_longPeri = 14.72847983, p_longNode = 100.47390909,
         p_aRate = (-0.00011607), p_eRate = (-0.00013253), p_IRate = (-0.00183714), p_LRate = 3034.74612775,
         p_longPeriRate = 0.21252668, p_longNodeRate = 0.20469106,
         p_siderealPeriod = 4332.59, p_synodicPeriod = Some 398.88,
         p_maxElongation = None, p_apparentMagRange = Some (-2.94, -1.66), p_angularDiamRange = Some (29.8, 50.1)\<rparr>),
     (''saturn'', \<lparr>p_name = ''Saturn'', p_symbol = 0x2644,
         p_a = 9.53667594, p_e = 0.05386179, p_I = 2.48599187, p_L = 49.95424423,
         p_longPeri = 92.59887831, p_longNode = 113.66242448,
         p_aRate = (-0.00125060), p_eRate = (-0.00050991), p_IRate = 0.00193609, p_LRate = 1222.49362201,
         p_longPeriRate = (-0.41897216), p_longNodeRate = (-0.28867794),
         p_siderealPeriod = 10759.22, p_synodicPeriod = Some 378.09,
         p_maxElongation = None, p_apparentMagRange = Some (-0.55, 1.17), p_angularDiamRange = Some (14.5, 20.1)\<rparr>),
     (''uranus'', \<lparr>p_name = ''Uranus'', p_symbol = 0x26E2,
         p_a = 19.18916464, p_e = 0.04725744, p_I = 0.77263783, p_L = 313.23810451,
         p_longPeri = 170.95427630, p_longNode = 74.01692503,
         p_aRate = (-0.00196176), p_eRate = (-0.00004397), p_IRate = (-0.00242939), p_LRate = 428.48202785,
         p_longPeriRate = 0.40805281, p_longNodeRate = 0.04240589,
         p_siderealPeriod = 30688.5, p_synodicPeriod = Some 369.66,
         p_maxElongation = None, p_apparentMagRange = Some (5.38, 6.03), p_angularDiamRange = Some (3.3, 4.1)\<rparr>),
     (''neptune'', \<lparr>p_name = ''Neptune'', p_symbol = 0x2646,
         p_a = 30.06992276, p_e = 0.00859048, p_I = 1.77004347, p_L = (-55.12002969),
         p_longPeri = 44.96476227, p_longNode = 131.78422574,
         p_aRate = 0.00026291, p_eRate = 0.00005105, p_IRate = 0.00035372, p_LRate = 218.45945325,
         p_longPeriRate = (-0.32241464), p_longNodeRate = (-0.00508664),
         p_siderealPeriod = 60182.0, p_synodicPeriod = Some 367.49,
         p_maxElongation = None, p_apparentMagRange = Some (7.78, 8.02), p_angularDiamRange = Some (2.2, 2.4)\<rparr>)]"

definition PLANET_RADII :: "string \<rightharpoonup> real" where
  "PLANET_RADII = map_of
    [(''mercury'', 2439.7), (''venus'', 6051.8), (''earth'', 6371.0), (''mars'', 3389.5),
     (''jupiter'', 69911), (''saturn'', 58232), (''uranus'', 25362), (''neptune'', 24622)]"

definition upperCaseChars :: string where
  "upperCaseChars = ''ABCDEFGHIJKLMNOPQRSTUVWXYZ'' @
       [CHR 0xC0, CHR 0xC1, CHR 0xC2, CHR 0xC3, CHR 0xC4, CHR 0xC5, CHR 0xC6, CHR 0xC7,
        CHR 0xC8, CHR 0xC9, CHR 0xCA, CHR 0xCB, CHR 0xCC, CHR 0xCD, CHR 0xCE, CHR 0xCF,
        CHR 0xD0, CHR 0xD1, CHR 0xD2, CHR 0xD3, CHR 0xD4, CHR 0xD5, CHR 0xD6, CHR 0xD8,
        CHR 0xD9, CHR 0xDA, CHR 0xDB, CHR 0xDC, CHR 0xDD, CHR 0xDE]"

definition lowerCaseChars :: string where
  "lowerCaseChars = ''abcdefghijklmnopqrstuvwxyz'' @
       [CHR 0xE0, CHR 0xE1, CHR 0xE2, CHR 0xE3, CHR 0xE4, CHR 0xE5, CHR 0xE6, CHR 0xE7,
        CHR 0xE8, CHR 0xE9, CHR 0xEA, CHR 0xEB, CHR 0xEC, CHR 0xED, CHR 0xEE, CHR 0xEF,
        CHR 0xF0, CHR 0xF1, CHR 0xF2, CHR 0xF3, CHR 0xF4, CHR 0xF5, CHR 0xF6, CHR 0xF8,
        CHR 0xF9, CHR 0xFA, CHR 0xFB, CHR 0xFC, CHR 0xFD, CHR 0xFE]"

definition toLowerChar :: "char \<Rightarrow> char" where
  \<comment> \<open>the lower case of a character below U+0100: the letters A to Z and those of
      U+00C0 to U+00DE (without U+00D7) have one, 32 places higher.\<close>
  "toLowerChar c =
     (case map_of (zip upperCaseChars lowerCaseChars) c of Some l \<Rightarrow> l | None \<Rightarrow> c)"

definition toLowerCase :: "string \<Rightarrow> string" where
  "toLowerCase s = map toLowerChar s"

record Elements =
  el_name :: string
  el_symbol :: nat
  el_a :: real
  el_e :: real
  el_I :: real
  el_L :: real
  el_longPeri :: real
  el_longNode :: real
  el_siderealPeriod :: real
  el_synodicPeriod :: "real option"

definition getPlanetElements :: "string \<Rightarrow> real \<Rightarrow> Elements option" where
  "getPlanetElements planetName jd =
     (case PLANETS (toLowerCase planetName) of
        None \<Rightarrow> None
      | Some planet \<Rightarrow>
          let T = julianCenturies jd
          in Some \<lparr>el_name = p_name planet,
                   el_symbol = p_symbol planet,
                   el_a = p_a planet + p_aRate planet * T,
                   el_e = p_e planet + p_eRate planet * T,
                   el_I = p_I planet + p_IRate planet * T,
                   el_L = normalizeAngle (p_L planet + p_LRate planet * T),
                   el_longPeri = p_longPeri planet + p_longPeriRate planet * T,
                   el_longNode = p_longNode planet + p_longNodeRate planet * T,
                   el_siderealPeriod = p_siderealPeriod planet,
                   el_synodicPeriod = p_synodicPeriod planet\<rparr>)"

definition keplerStep :: "real \<Rightarrow> real \<Rightarrow> real \<Rightarrow> real" where
  \<comment> \<open>the correction \<^verbatim>\<open>dE\<close> of one pass of the loop, in degrees.\<close>
  "keplerStep ecc M E =
     (let ERad = toRadians E
      in (M - E + toDegrees (ecc * sin ERad)) / (1 - ecc * cos ERad))"

fun keplerLoop :: "nat \<Rightarrow> real \<Rightarrow> real \<Rightarrow> real \<Rightarrow> real" where
  \<comment> \<open>the loop \<^verbatim>\<open>for (let i = 0; i < 10; i++)\<close> with its \<^verbatim>\<open>break\<close>; the first argument is
      the number of passes left.\<close>
  "keplerLoop 0 ecc M E = E"
| "keplerLoop (Suc n) ecc M E =
     (let dE = keplerStep ecc M E;
          E = E + dE
      in if \<bar>dE\<bar> < 0.0001 then E else keplerLoop n ecc M E)"

fun keplerBreak :: "nat \<Rightarrow> real \<Rightarrow> real \<Rightarrow> real \<Rightarrow> bool" where
  \<comment> \<open>the same loop, observed: whether it leaves through its \<^verbatim>\<open>break\<close> within the passes
      left, that is, whether one of them has a correction below \<^verbatim>\<open>0.0001\<close> degrees.\<close>
  "keplerBreak 0 ecc M E = False"
| "keplerBreak (Suc n) ecc M E =
     (let dE = keplerStep ecc M E;
          E = E + dE
      in if \<bar>dE\<bar> < 0.0001 then True else keplerBreak n ecc M E)"

record HelioPosition =
  hp_longitude :: real
  hp_latitude :: real
  hp_distance :: real
  hp_x :: real
  hp_y :: real
  hp_z :: real
  trueAnomaly :: real
  meanAnomaly :: real

text \<open>
  The planetary positions are exact where the eccentricity is in \<open>(-1, 1)\<close> (every
  tabulated planet within 2000 centuries of J2000.0) and no divisor below is zero;
  outside that the program computes with NaN and infinities, which this part of the
  model does not follow.
\<close>

definition calculateHeliocentricPosition :: "string \<Rightarrow> Instant \<Rightarrow> HelioPosition option" where
  "calculateHeliocentricPosition planetName date =
     (let jd = dateToJulian date
      in case getPlanetElements planetName jd of
           None \<Rightarrow> None
         | Some elements \<Rightarrow>
             let omega = el_longPeri elements - el_longNode elements;
                 M = normalizeAngle (el_L elements - el_longPeri elements);
                 MRad = toRadians M;
                 E0 = M + toDegrees (el_e elements) * sin MRad;
                 E = keplerLoop 10 (el_e elements) M E0;
                 ERad = toRadians E;
                 xv = el_a elements * (cos ERad - el_e elements);
                 yv = el_a elements * sqrt (1 - el_e elements * el_e elements) * sin ERad;
                 v = toDegrees (Math_atan2 yv xv);
                 r = sqrt (xv * xv + yv * yv);
                 omegaRad = toRadians omega;
                 nodeRad = toRadians (el_longNode elements);
                 iRad = toRadians (el_I elements);
                 vRad = toRadians v;
                 xh = r * (cos nodeRad * cos (vRad + omegaRad) -
                           sin nodeRad * sin (vRad + omegaRad) * cos iRad);
                 yh = r * (sin nodeRad * cos (vRad + omegaRad) +
                           cos nodeRad * sin (vRad + omegaRad) * cos iRad);
                 zh = r * sin (vRad + omegaRad) * sin iRad;
                 lonEcl = toDegrees (Math_atan2 yh xh);
                 latEcl = toDegrees (Math_atan2 zh (sqrt (xh * xh + yh * yh)))
             in Some \<lparr>hp_longitude = normalizeAngle lonEcl, hp_latitude = latEcl,
                      hp_distance = r, hp_x = xh, hp_y = yh, hp_z = zh,
                      trueAnomaly = v, meanAnomaly = M\<rparr>)"

definition angularDistance :: "real \<Rightarrow> real \<Rightarrow> real \<Rightarrow> real \<Rightarrow> real" where
  \<comment> \<open>the argument of \<^verbatim>\<open>Math.acos\<close> is clamped to \<open>[-1, 1]\<close>.\<close>
  "angularDistance ra1 dec1 ra2 dec2 =
     (let dec1Rad = toRadians dec1;
          dec2Rad = toRadians dec2;
          dRa = toRadians (ra2 - ra1);
          cosD = sin dec1Rad * sin dec2Rad + cos dec1Rad * cos dec2Rad * cos dRa
      in toDegrees (arccos (max (-1) (min 1 cosD))))"

record PlanetPosition =
  pp_ra :: real
  pp_dec :: "real option"
  pp_distance :: real
  distanceSun :: real
  elongation :: "real option"
  phaseAngle :: "real option"
  illumination :: "real option"
  angularDiameter :: real
  eclipticLongitude :: real
  eclipticLatitude :: real

definition calculatePlanetPosition :: "string \<Rightarrow> Instant \<Rightarrow> PlanetPosition option" where
  \<comment> \<open>\<open>None\<close> is \<^verbatim>\<open>null\<close>; a field that is \<open>None\<close> is NaN.\<close>
  "calculatePlanetPosition planetName date =
     (if toLowerCase planetName = ''earth'' then None
      else
        let jd = dateToJulian date
        in case (calculateHeliocentricPosition planetName date,
                 calculateHeliocentricPosition ''earth'' date) of
             (Some planet, Some earth) \<Rightarrow>
               let xg = hp_x planet - hp_x earth;
                   yg = hp_y planet - hp_y earth;
                   zg = hp_z planet - hp_z earth;
                   dist = sqrt (xg * xg + yg * yg + zg * zg);
                   lonEcl = toDegrees (Math_atan2 yg xg);
                   latEcl = toDegrees (Math_atan2 zg (sqrt (xg * xg + yg * yg)));
                   epsilon = meanObliquity jd;
                   epsilonRad = toRadians epsilon;
                   lonRad = toRadians lonEcl;
                   latRad = toRadians latEcl;
                   r = toDegrees (Math_atan2
                         (sin lonRad * cos epsilonRad - tan latRad * sin epsilonRad)
                         (cos lonRad));
                   d = map_option toDegrees (Math_asin
                         (sin latRad * cos epsilonRad +
                          cos latRad * sin epsilonRad * sin lonRad));
                   sunPos = approximateSunPosition date;
                   elong = map_option
                     (\<lambda>d. angularDistance (normalizeAngle r) d (sun_ra sunPos) (sun_dec sunPos)) d;
                   rS = hp_distance planet;
                   R = dist;
                   sE = hp_distance earth;
                   phase = (case js_div (rS * rS + R * R - sE * sE) (2 * rS * R) of
                              Fin c \<Rightarrow> map_option toDegrees (Math_acos c)
                            | _ \<Rightarrow> None);
                   illum = map_option (\<lambda>ph. (1 + cos (toRadians ph)) / 2 * 100) phase;
                   planetRadius = (case PLANET_RADII (toLowerCase planetName) of
                                     Some rad \<Rightarrow> rad | None \<Rightarrow> 0);
                   angularDiam = 2 * toDegrees (arctan (planetRadius / (dist * 149597870.7))) * 3600
               in Some \<lparr>pp_ra = normalizeAngle r, pp_dec = d, pp_distance = dist,
                        distanceSun = rS, elongation = elong, phaseAngle = phase,
                        illumination = illum, angularDiameter = angularDiam,
                        eclipticLongitude = normalizeAngle lonEcl,
                        eclipticLatitude = latEcl\<rparr>
           | _ \<Rightarrow> None)"

fun eventSearch :: "nat \<Rightarrow> string \<Rightarrow> string \<Rightarrow> real \<Rightarrow> Instant \<Rightarrow> Instant option" where
  \<comment> \<open>the loop \<^verbatim>\<open>for (let day = 0; day < maxDays; day++)\<close> of
      \<^verbatim>\<open>calculateNextPlanetaryEvent\<close>; the first argument is the number of passes left.
      A null position skips the pass (\<^verbatim>\<open>continue\<close>) without advancing the date; a NaN
      elongation fails every comparison.\<close>
  "eventSearch 0 planetName event targetElong date = None"
| "eventSearch (Suc n) planetName event targetElong date =
     (case calculatePlanetPosition planetName date of
        None \<Rightarrow> eventSearch n planetName event targetElong date
      | Some pos \<Rightarrow>
          let nextDate = addOneDay date;
              close = (case elongation pos of
                         Some el \<Rightarrow> \<bar>el - targetElong\<bar> < 1 | None \<Rightarrow> False);
              found =
                (close \<and>
                 (case (calculatePlanetPosition planetName nextDate, elongation pos) of
                    (Some nextPos, Some el) \<Rightarrow>
                      (case elongation nextPos of
                         Some nextEl \<Rightarrow>
                           if event = ''opposition'' then nextEl < el else nextEl > el
                       | None \<Rightarrow> False)
                  | _ \<Rightarrow> False))
          in if found then Some date
             else eventSearch n planetName event targetElong nextDate)"

definition calculateNextPlanetaryEvent :: "string \<Rightarrow> Instant \<Rightarrow> string \<Rightarrow> Instant option" where
  \<comment> \<open>\<open>None\<close> is \<^verbatim>\<open>null\<close>. The loop runs for day = 0, 1, ... while \<^verbatim>\<open>day < maxDays\<close>, that
      is \<open>\<lceil>maxDays\<rceil>\<close> times.\<close>
  "calculateNextPlanetaryEvent planetName startDate event =
     (case PLANETS (toLowerCase planetName) of
        None \<Rightarrow> None
      | Some planet \<Rightarrow>
          let isInferior = (p_a planet < 1)
          in if isInferior \<and> event = ''opposition'' then None
             else
               let targetElong = (if event = ''opposition'' then 180 else 0);
                   maxDays = (case p_synodicPeriod planet of
                                Some sp \<Rightarrow> if sp \<noteq> 0 then sp * 1.5 else 800
                              | None \<Rightarrow> 800)
               in eventSearch (nat \<lceil>maxDays\<rceil>) planetName event targetElong startDate)"

subsection \<open>Ranking by visibility\<close>

record RankedObject =
  obj :: CatalogObject
  currentAltitude :: "real option"
  currentAzimuth :: "real option"
  visibilityScore :: "int option"
  isVisible :: bool
  isOptimal :: bool

definition raInDegrees :: "(string \<Rightarrow> real option) \<Rightarrow> coord \<Rightarrow> real option" where
  \<comment> \<open>the right ascension as \<^verbatim>\<open>raDecToAltAz\<close> reads it, \<open>None\<close> for NaN. \<open>toNumber\<close> is
      the conversion of a string to a number that \<^verbatim>\<open><\<close>, \<^verbatim>\<open>*\<close> and \<^verbatim>\<open>-\<close> apply (ECMA-262
      StringToNumber); \<^verbatim>\<open>null\<close> from \<^verbatim>\<open>parseCoordinate\<close> converts to 0.\<close>
  "raInDegrees toNumber c =
     (case c of
        CStr str \<Rightarrow>
          if CHR ''h'' \<in> set str then
            (case parseCoordinate str ''ra'' of Some v \<Rightarrow> Some v | None \<Rightarrow> Some 0)
          else
            (case toNumber str of
               Some v \<Rightarrow> if v < 24 then Some (v * HOURS_TO_DEG) else Some v
             | None \<Rightarrow> None)
      | CNum v \<Rightarrow> if v < 24 then Some (v * HOURS_TO_DEG) else Some v)"

definition decInDegrees :: "coord \<Rightarrow> real option" where
  "decInDegrees c =
     (case c of
        CStr str \<Rightarrow> (case parseCoordinate str ''dec'' of Some v \<Rightarrow> Some v | None \<Rightarrow> Some 0)
      | CNum v \<Rightarrow> Some v)"

definition rankEntry ::
  "(string \<Rightarrow> real option) \<Rightarrow> real \<Rightarrow> real \<Rightarrow> real \<Rightarrow> CatalogObject \<Rightarrow> RankedObject" where
  \<comment> \<open>the function mapped over the objects; a NaN coordinate makes altitude and azimuth NaN.\<close>
  "rankEntry toNumber lat localSiderealTime limMag ob =
     (let altAz = (case (raInDegrees toNumber (ra ob), decInDegrees (dec ob)) of
                     (Some r, Some d) \<Rightarrow> raDecToAltAz r d lat localSiderealTime
                   | _ \<Rightarrow> \<lparr>altitude = None, azimuth = None\<rparr>);
          score = calculateVisibilityScore ob (altitude altAz) limMag
      in \<lparr>obj = ob,
          currentAltitude = altitude altAz,
          currentAzimuth = azimuth altAz,
          visibilityScore = score,
          isVisible = (case altitude altAz of Some al \<Rightarrow> al > 0 | None \<Rightarrow> False),
          isOptimal = (case altitude altAz of Some al \<Rightarrow> al > 30 \<and> al < 70 | None \<Rightarrow> False)\<rparr>)"

definition compareScores :: "RankedObject \<Rightarrow> RankedObject \<Rightarrow> real" where
  \<comment> \<open>the comparator \<^verbatim>\<open>(a, b) => b.visibilityScore - a.visibilityScore\<close>; a NaN result
      counts as 0 in \<^verbatim>\<open>sort\<close>.\<close>
  "compareScores x y =
     (case (visibilityScore x, visibilityScore y) of
        (Some sx, Some sy) \<Rightarrow> real_of_int (sy - sx)
      | _ \<Rightarrow> 0)"

fun insertSorted :: "('a \<Rightarrow> 'a \<Rightarrow> real) \<Rightarrow> 'a \<Rightarrow> 'a list \<Rightarrow> 'a list" where
  "insertSorted cmp x [] = [x]"
| "insertSorted cmp x (y # ys) =
     (if cmp x y \<le> 0 then x # y # ys else y # insertSorted cmp x ys)"

definition sortBy :: "('a \<Rightarrow> 'a \<Rightarrow> real) \<Rightarrow> 'a list \<Rightarrow> 'a list" where
  \<comment> \<open>\<^verbatim>\<open>Array.prototype.sort\<close> with a consistent comparator: the stable sort.\<close>
  "sortBy cmp xs = foldr (insertSorted cmp) xs []"

definition rankObjectsByVisibility ::
  "(string \<Rightarrow> real option) \<Rightarrow> CatalogObject list \<Rightarrow> real \<Rightarrow> real \<Rightarrow> Instant \<Rightarrow> real
     \<Rightarrow> RankedObject list" where
  "rankObjectsByVisibility toNumber objects lat lon date limMag =
     (let jd = dateToJulian date;
          localSiderealTime = lst jd lon
      in sortBy compareScores
           (filter isVisible
              (map (rankEntry toNumber lat localSiderealTime limMag) objects)))"

subsection \<open>Kepler's equation in radians\<close>

text \<open>
  Two notions for the analysis of the loop in \<open>calculateHeliocentricPosition\<close>; the program
  has neither. Seen through \<open>toRadians\<close>, one pass of the loop is a step of Newton's
  iteration for \<open>x - e sin x - m = 0\<close>, the map \<open>newtonKepler e m\<close>. The number
  \<open>newtonErrorBound k\<close> bounds the distance from the iterate to the root after \<open>k\<close> passes
  that started on the far side of the root.
\<close>

definition newtonKepler :: "real \<Rightarrow> real \<Rightarrow> real \<Rightarrow> real" where
  "newtonKepler e m x = x + (m - x + e * sin x) / (1 - e * cos x)"

definition newtonErrorBound :: "nat \<Rightarrow> real" where
  "newtonErrorBound k =
     (if k = 0 then 6 / 5 else if k = 1 then 47 / 50 else if k = 2 then 39 / 50
      else if k = 3 then 61 / 100 else if k = 4 then 39 / 100 else if k = 5 then 4 / 25
      else if k = 6 then 27 / 1000 else if k = 7 then 1 / 1250 else 1 / 1000000)"

subsection \<open>The spec's rise and set offset\<close>

definition claimed_riseOffset :: "real \<Rightarrow> real" where
  \<comment> \<open>the offset as the specification words it: \<open>H / 15\<close> hours in milliseconds, divided
      by the sidereal-to-solar ratio. The program's offset is \<^verbatim>\<open>H / 15 * 3600000\<close>.\<close>
  "claimed_riseOffset H = H / HOURS_TO_DEG * 3600000 / SIDEREAL_RATIO"

subsection \<open>Example inputs\<close>

definition exampleObjects :: "CatalogObject list" where
  "exampleObjects =
     [\<lparr>ra = CNum 0, dec = CNum 90, magnitude = Some 5.8, size_arcmin = None\<rparr>,
      \<lparr>ra = CNum 0, dec = CNum (-90), magnitude = Some 1, size_arcmin = None\<rparr>,
      \<lparr>ra = CNum 0, dec = CNum 90, magnitude = Some 1, size_arcmin = None\<rparr>]"

definition exampleDate :: Instant where
  "exampleDate = \<lparr>utcFullYear = 2000, utcMonth = 0, utcDate = 1, utcHours = 0, utcMinutes = 0,
                  utcSeconds = 0, utcMilliseconds = 0\<rparr>"

definition earlyDate :: Instant where
  \<comment> \<open>1000-01-01T00:00:00.000Z\<close>
  "earlyDate = \<lparr>utcFullYear = 1000, utcMonth = 0, utcDate = 1, utcHours = 0, utcMinutes = 0,
                utcSeconds = 0, utcMilliseconds = 0\<rparr>"

definition secondInstant :: Instant where
  \<comment> \<open>2000-01-01T00:00:01.000Z\<close>
  "secondInstant = \<lparr>utcFullYear = 2000, utcMonth = 0, utcDate = 1, utcHours = 0, utcMinutes = 0,
                    utcSeconds = 1, utcMilliseconds = 0\<rparr>"

section \<open>Properties\<close>

subsection \<open>Bortle lookup\<close>

lemma Math_round_clamp_cases:
  "max 1 (min 9 (Math_round x)) \<in> {1, 2, 3, 4, 5, 6, 7, 8, 9}"
proof -
  have cases: "k \<in> {1, 2, 3, 4, 5, 6, 7, 8, 9}" if "1 \<le> k" "k \<le> 9" for k :: int
    using that by (simp only: insert_iff empty_iff) arith
  show ?thesis by (rule cases) simp_all
qed

lemma BORTLE_SCALE_defined:
  assumes "k \<in> {1, 2, 3, 4, 5, 6, 7, 8, 9}"
  shows "\<exists>info. BORTLE_SCALE k = Some info"
  using assms unfolding BORTLE_SCALE_def by auto

text \<open>
  C9. \<open>getBortleInfo\<close> is total over the real numbers: it rounds its argument to the
  nearest integer and clamps it into 1..9 before the lookup, so it returns an entry of
  \<open>BORTLE_SCALE\<close> (never \<^verbatim>\<open>undefined\<close>) for every real input, and \<open>bortleToSqm\<close>
  returns the number stored in that entry.
\<close>

theorem getBortleInfo_total:
  "\<exists>info. getBortleInfo x = Some info
        \<and> BORTLE_SCALE (max 1 (min 9 (Math_round x))) = Some info
        \<and> 1 \<le> max 1 (min 9 (Math_round x)) \<and> max 1 (min 9 (Math_round x)) \<le> 9
        \<and> bortleToSqm x = Some (sqm info)"
proof -
  obtain info where "BORTLE_SCALE (max 1 (min 9 (Math_round x))) = Some info"
    using BORTLE_SCALE_defined [OF Math_round_clamp_cases] by blast
  then show ?thesis
    by (simp add: getBortleInfo_def bortleToSqm_def)
qed

subsection \<open>Visibility score\<close>

lemma score_below_horizon: "alt < 0 \<Longrightarrow> calculateVisibilityScore ob (Some alt) lm = Some 0"
  unfolding calculateVisibilityScore_def by simp

lemma score_nan: "calculateVisibilityScore ob None lm = None"
  unfolding calculateVisibilityScore_def by simp

lemma score_clamped:
  "\<exists>s. calculateVisibilityScore ob (Some alt) lm = Some s \<and> 0 \<le> s \<and> s \<le> 100"
proof (cases "alt < 0")
  case True
  then show ?thesis by (simp add: score_below_horizon)
next
  case False
  then have "calculateVisibilityScore ob (Some alt) lm =
    Some (min 100 (max 0 (Math_round (0 + altitudeScore alt
        + brightnessScore (map_option (\<lambda>m. lm - m) (magnitude ob))
        + sizeScore (size_arcmin ob)))))"
    unfolding calculateVisibilityScore_def Let_def by simp
  then show ?thesis by simp
qed

lemma score_example:
  "calculateVisibilityScore
     \<lparr>ra = CNum 10, dec = CNum 20, magnitude = Some 4, size_arcmin = Some 30\<rparr> (Some 45) 6
   = Some 76"
  by (simp add: calculateVisibilityScore_def altitudeScore_def brightnessScore_def
      sizeScore_def Math_round_def)

text \<open>
  C7, amended. For every object, every altitude that is a number and every limiting
  magnitude, \<open>calculateVisibilityScore\<close> returns 0 when the altitude is below 0 degrees
  and in all cases an integer in \<open>[0, 100]\<close>; for the object \<^verbatim>\<open>{magnitude: 5.8}\<close> at
  altitude -1 and limiting magnitude 5.8 it returns exactly 0. For an altitude that is
  NaN it returns NaN.
\<close>

theorem calculateVisibilityScore_range:
  "(alt < 0 \<longrightarrow> calculateVisibilityScore ob (Some alt) lm = Some 0)
   \<and> (\<exists>s. calculateVisibilityScore ob (Some alt) lm = Some s \<and> 0 \<le> s \<and> s \<le> 100)
   \<and> calculateVisibilityScore \<lparr>ra = r, dec = d, magnitude = Some 5.8, size_arcmin = None\<rparr>
        (Some (-1)) 5.8 = Some 0
   \<and> calculateVisibilityScore ob None lm = None"
  using score_clamped [of ob alt lm] by (simp add: score_below_horizon score_nan)

theorem calculateVisibilityScore_range_witness:
  "(-1::real) < 0
   \<and> calculateVisibilityScore
        \<lparr>ra = CNum 10, dec = CNum 20, magnitude = Some 4, size_arcmin = Some 30\<rparr>
        (Some (-1)) 6 = Some 0"
  using calculateVisibilityScore_range
    [of "-1" "\<lparr>ra = CNum 10, dec = CNum 20, magnitude = Some 4, size_arcmin = Some 30\<rparr>" 6]
  by simp

text \<open>
  C7, as stated, fails for an altitude that is NaN: \<^verbatim>\<open>NaN < 0\<close> is false, the score becomes
  NaN, and \<^verbatim>\<open>Math.round\<close>, \<^verbatim>\<open>Math.max\<close> and \<^verbatim>\<open>Math.min\<close> return NaN, not an integer in
  \<open>[0, 100]\<close>. \<open>rankObjectsByVisibility\<close> makes such a call for an object whose right
  ascension is a string that is not a number.
\<close>

theorem calculateVisibilityScore_nan_counterexample:
  "calculateVisibilityScore \<lparr>ra = CNum 0, dec = CNum 0, magnitude = Some 5.8, size_arcmin = None\<rparr>
     None 5.8 = None
   \<and> \<not> (\<exists>s. calculateVisibilityScore
              \<lparr>ra = CNum 0, dec = CNum 0, magnitude = Some 5.8, size_arcmin = None\<rparr> None 5.8
            = Some s \<and> 0 \<le> s \<and> s \<le> 100)
   \<and> visibilityScore (rankEntry (\<lambda>s. None) 0 0 5.8
        \<lparr>ra = CStr ''abc'', dec = CNum 0, magnitude = Some 5.8, size_arcmin = None\<rparr>) = None"
  by (simp add: calculateVisibilityScore_def rankEntry_def raInDegrees_def decInDegrees_def)


subsection \<open>Coordinate transformation\<close>









subsection \<open>Ranking\<close>

lemma set_insertSorted: "set (insertSorted cmp x ys) = insert x (set ys)"
  by (induction ys) auto

lemma set_sortBy: "set (sortBy cmp xs) = set xs"
  unfolding sortBy_def by (induction xs) (simp_all add: set_insertSorted)

lemma sorted_insertSorted:
  fixes k :: "'a \<Rightarrow> int"
  assumes key: "\<And>u v. u \<in> S \<Longrightarrow> v \<in> S \<Longrightarrow> (cmp u v \<le> 0) = (k v \<le> k u)"
  shows "x \<in> S \<Longrightarrow> set ys \<subseteq> S \<Longrightarrow> sorted_wrt (\<lambda>u v. k v \<le> k u) ys
         \<Longrightarrow> sorted_wrt (\<lambda>u v. k v \<le> k u) (insertSorted cmp x ys)"
proof (induction ys)
  case Nil
  show ?case by simp
next
  case (Cons y ys)
  have yS: "y \<in> S" and ysS: "set ys \<subseteq> S" using Cons.prems(2) by simp_all
  have ys_le: "\<forall>v \<in> set ys. k v \<le> k y" and ys_sorted: "sorted_wrt (\<lambda>u v. k v \<le> k u) ys"
    using Cons.prems(3) by simp_all
  show ?case
  proof (cases "cmp x y \<le> 0")
    case True
    then have "k y \<le> k x" using key [OF Cons.prems(1) yS] by simp
    then have "\<forall>v \<in> set (y # ys). k v \<le> k x" using ys_le by fastforce
    then show ?thesis using True Cons.prems(3) by simp
  next
    case False
    then have "k x \<le> k y" using key [OF Cons.prems(1) yS] by simp
    then have "\<forall>v \<in> set (insertSorted cmp x ys). k v \<le> k y"
      using ys_le by (simp add: set_insertSorted)
    moreover have "sorted_wrt (\<lambda>u v. k v \<le> k u) (insertSorted cmp x ys)"
      using Cons.IH [OF Cons.prems(1) ysS ys_sorted] .
    ultimately show ?thesis using False by simp
  qed
qed

lemma sorted_sortBy:
  fixes k :: "'a \<Rightarrow> int"
  assumes key: "\<And>u v. u \<in> S \<Longrightarrow> v \<in> S \<Longrightarrow> (cmp u v \<le> 0) = (k v \<le> k u)"
  shows "set xs \<subseteq> S \<Longrightarrow> sorted_wrt (\<lambda>u v. k v \<le> k u) (sortBy cmp xs)"
proof (induction xs)
  case Nil
  show ?case by (simp add: sortBy_def)
next
  case (Cons x xs)
  have xS: "x \<in> S" and xsS: "set xs \<subseteq> S" using Cons.prems by simp_all
  have "sorted_wrt (\<lambda>u v. k v \<le> k u) (insertSorted cmp x (sortBy cmp xs))"
  proof (rule sorted_insertSorted [where S = S])
    show "(cmp u v \<le> 0) = (k v \<le> k u)" if "u \<in> S" "v \<in> S" for u v
      using key [OF that] .
    show "x \<in> S" by (rule xS)
    show "set (sortBy cmp xs) \<subseteq> S" using xsS by (simp add: set_sortBy)
    show "sorted_wrt (\<lambda>u v. k v \<le> k u) (sortBy cmp xs)" by (rule Cons.IH [OF xsS])
  qed
  then show ?case by (simp add: sortBy_def)
qed

lemma rankEntry_visible:
  assumes "isVisible (rankEntry toNumber lat lstv lm ob)"
  shows "\<exists>al s. currentAltitude (rankEntry toNumber lat lstv lm ob) = Some al \<and> 0 < al
               \<and> visibilityScore (rankEntry toNumber lat lstv lm ob) = Some s"
proof -
  obtain aa where aa: "aa = (case (raInDegrees toNumber (ra ob), decInDegrees (dec ob)) of
                     (Some r, Some d) \<Rightarrow> raDecToAltAz r d lat lstv
                   | _ \<Rightarrow> \<lparr>altitude = None, azimuth = None\<rparr>)" by simp
  have e: "rankEntry toNumber lat lstv lm ob = \<lparr>obj = ob,
          currentAltitude = altitude aa,
          currentAzimuth = azimuth aa,
          visibilityScore = calculateVisibilityScore ob (altitude aa) lm,
          isVisible = (case altitude aa of Some al \<Rightarrow> al > 0 | None \<Rightarrow> False),
          isOptimal = (case altitude aa of Some al \<Rightarrow> al > 30 \<and> al < 70 | None \<Rightarrow> False)\<rparr>"
    unfolding rankEntry_def Let_def aa by simp
  from assms obtain al where al: "altitude aa = Some al" "0 < al"
    unfolding e by (auto split: option.splits)
  obtain s where "calculateVisibilityScore ob (Some al) lm = Some s"
    using score_clamped by blast
  then show ?thesis unfolding e using al by simp
qed

text \<open>
  C6. For every list of catalog objects and every latitude, longitude, date and
  limiting magnitude, the list returned by \<open>rankObjectsByVisibility\<close> has no entry whose
  \<open>currentAltitude\<close> is at most 0 (each entry's altitude is a number above 0), and its
  entries are in descending order of \<open>visibilityScore\<close>.
\<close>

theorem rankObjectsByVisibility_filtered_sorted:
  "(\<forall>en \<in> set (rankObjectsByVisibility toNumber objects lat lon date lm).
      \<exists>al. currentAltitude en = Some al \<and> 0 < al)
   \<and> sorted_wrt (\<lambda>x y. \<exists>sx sy. visibilityScore x = Some sx \<and> visibilityScore y = Some sy
                              \<and> sy \<le> sx)
       (rankObjectsByVisibility toNumber objects lat lon date lm)"
proof -
  define entries where
    "entries = filter isVisible (map (rankEntry toNumber lat (lst (dateToJulian date) lon) lm) objects)"
  define k where "k = (\<lambda>en :: RankedObject. case visibilityScore en of Some s \<Rightarrow> s | None \<Rightarrow> (0::int))"
  have result: "rankObjectsByVisibility toNumber objects lat lon date lm = sortBy compareScores entries"
    by (simp add: rankObjectsByVisibility_def entries_def Let_def)
  have vis: "\<exists>al s. currentAltitude en = Some al \<and> 0 < al \<and> visibilityScore en = Some s"
    if "en \<in> set entries" for en
  proof -
    from that obtain ob where "en = rankEntry toNumber lat (lst (dateToJulian date) lon) lm ob"
      and "isVisible en" unfolding entries_def by auto
    then show ?thesis using rankEntry_visible by simp
  qed
  have key: "(compareScores u v \<le> 0) = (k v \<le> k u)" if uS: "u \<in> set entries" and vS: "v \<in> set entries" for u v
  proof -
    obtain su where su: "visibilityScore u = Some su" using vis [OF uS] by blast
    obtain sv where sv: "visibilityScore v = Some sv" using vis [OF vS] by blast
    show ?thesis by (simp add: compareScores_def k_def su sv)
  qed
  have sorted_k: "sorted_wrt (\<lambda>u v. k v \<le> k u) (sortBy compareScores entries)"
    by (rule sorted_sortBy [where S = "set entries"]) (simp_all add: key)
  have rel: "\<exists>sx sy. visibilityScore x = Some sx \<and> visibilityScore y = Some sy \<and> sy \<le> sx"
    if xS: "x \<in> set (sortBy compareScores entries)"
      and yS: "y \<in> set (sortBy compareScores entries)"
      and le: "k y \<le> k x" for x y
  proof -
    have "x \<in> set entries" "y \<in> set entries" using xS yS by (simp_all add: set_sortBy)
    then obtain sx sy where sx: "visibilityScore x = Some sx" and sy: "visibilityScore y = Some sy"
      using vis by blast
    show ?thesis using le by (simp add: k_def sx sy)
  qed
  have "sorted_wrt (\<lambda>x y. \<exists>sx sy. visibilityScore x = Some sx \<and> visibilityScore y = Some sy
                                     \<and> sy \<le> sx) (sortBy compareScores entries)"
    by (rule sorted_wrt_mono_rel [OF _ sorted_k]) (rule rel)
  moreover have "\<forall>en \<in> set (sortBy compareScores entries). \<exists>al. currentAltitude en = Some al \<and> 0 < al"
  proof
    fix en assume "en \<in> set (sortBy compareScores entries)"
    then have "en \<in> set entries" by (simp add: set_sortBy)
    from vis [OF this] show "\<exists>al. currentAltitude en = Some al \<and> 0 < al" by blast
  qed
  ultimately show ?thesis unfolding result by (rule conjI [rotated])
qed

lemma pole_up: "raDecToAltAz 0 90 90 l = \<lparr>altitude = Some 90, azimuth = None\<rparr>"
  by (simp add: raDecToAltAz_def toRadians_def DEG_TO_RAD_def toDegrees_def RAD_TO_DEG_def
      Math_asin_def js_div_def clamp_unit_def)

lemma pole_down: "altitude (raDecToAltAz 0 (-90) 90 l) = Some (-90)"
  by (simp add: raDecToAltAz_def toRadians_def DEG_TO_RAD_def toDegrees_def RAD_TO_DEG_def
      Math_asin_def js_div_def clamp_unit_def Let_def)

lemma rank_example:
  "map visibilityScore (rankObjectsByVisibility (\<lambda>s. None) exampleObjects 90 0 exampleDate 5.8)
     = [Some 70, Some 50]
   \<and> map currentAltitude (rankObjectsByVisibility (\<lambda>s. None) exampleObjects 90 0 exampleDate 5.8)
     = [Some 90, Some 90]"
  by (simp add: rankObjectsByVisibility_def exampleObjects_def rankEntry_def raInDegrees_def
      decInDegrees_def HOURS_TO_DEG_def pole_up pole_down calculateVisibilityScore_def
      altitudeScore_def brightnessScore_def sizeScore_def Math_round_def sortBy_def
      compareScores_def Let_def)


theorem rankObjectsByVisibility_filtered_sorted_witness:
  "list_all (\<lambda>en. \<exists>al. currentAltitude en = Some al \<and> 0 < al)
     (rankObjectsByVisibility (\<lambda>s. None) exampleObjects 90 0 exampleDate 5.8)
   \<and> map visibilityScore (rankObjectsByVisibility (\<lambda>s. None) exampleObjects 90 0 exampleDate 5.8)
     = [Some 70, Some 50]"
  using rankObjectsByVisibility_filtered_sorted [of "\<lambda>s. None" exampleObjects 90 0 exampleDate "5.8"]
    rank_example
  by (simp add: list_all_iff)


subsection \<open>Domain-excluded planetary requests\<close>

lemma lower1: "toLowerCase ''EaRtH'' = ''earth''"
  by (simp add: toLowerCase_def toLowerChar_def upperCaseChars_def lowerCaseChars_def)

lemma lower2: "toLowerCase ''Venus'' = ''venus''"
  by (simp add: toLowerCase_def toLowerChar_def upperCaseChars_def lowerCaseChars_def)

lemma venus: "\<exists>pl. PLANETS ''venus'' = Some pl \<and> p_a pl < 1"
  by (simp add: PLANETS_def)

text \<open>
  C8. Domain-excluded requests return \<^verbatim>\<open>null\<close> (\<open>None\<close>) rather than raising: for every
  date, \<open>calculatePlanetPosition\<close> of a name whose lower case is \<^verbatim>\<open>earth\<close> is \<^verbatim>\<open>null\<close>, and
  for every start date \<open>calculateNextPlanetaryEvent\<close> for \<^verbatim>\<open>'opposition'\<close> is \<^verbatim>\<open>null\<close>
  whenever the planet's semi-major axis is below 1 AU.
\<close>

theorem domain_excluded_requests_null:
  "(toLowerCase nm = ''earth'' \<longrightarrow> calculatePlanetPosition nm date = None)
   \<and> (\<forall>pl. PLANETS (toLowerCase p) = Some pl \<and> p_a pl < 1
          \<longrightarrow> calculateNextPlanetaryEvent p start ''opposition'' = None)
   \<and> calculatePlanetPosition ''earth'' date = None
   \<and> calculatePlanetPosition ''Earth'' date = None
   \<and> calculatePlanetPosition ''EARTH'' date = None
   \<and> calculateNextPlanetaryEvent ''mercury'' start ''opposition'' = None
   \<and> calculateNextPlanetaryEvent ''Venus'' start ''opposition'' = None"
  by (simp add: calculatePlanetPosition_def calculateNextPlanetaryEvent_def
      toLowerCase_def toLowerChar_def upperCaseChars_def lowerCaseChars_def PLANETS_def)

theorem domain_excluded_requests_null_witness:
  "toLowerCase ''EaRtH'' = ''earth''
   \<and> calculatePlanetPosition ''EaRtH'' exampleDate = None
   \<and> (\<exists>pl. PLANETS (toLowerCase ''Venus'') = Some pl \<and> p_a pl < 1)
   \<and> calculateNextPlanetaryEvent ''Venus'' exampleDate ''opposition'' = None"
  using domain_excluded_requests_null [of "''EaRtH''" exampleDate "''Venus''" exampleDate]
    lower1 lower2 venus
  by simp

subsection \<open>Coordinate parsing\<close>

lemma optChar_append:
  assumes "x = [] \<or> (\<exists>c. x = [c] \<and> P c)" and "r = [] \<or> \<not> P (hd r)"
  shows "optChar P (x @ r) = (x, r)"
  using assms by (cases r) (auto simp: optChar_def)

lemma takeWhile_digits:
  assumes "\<forall>c \<in> set ds. is_digit c" and "r = [] \<or> \<not> is_digit (hd r)"
  shows "takeWhile is_digit (ds @ r) = ds" and "dropWhile is_digit (ds @ r) = r"
proof -
  have r: "takeWhile is_digit r = []" "dropWhile is_digit r = r"
    using assms(2) by (cases r; simp)+
  show "takeWhile is_digit (ds @ r) = ds"
    using assms(1) by (simp add: takeWhile_append2 r)
  show "dropWhile is_digit (ds @ r) = r"
    using assms(1) by (simp add: dropWhile_append2 r)
qed

lemma digit_facts:
  assumes "is_digit c"
  shows "\<not> is_space c" "c \<noteq> CHR ''+''" "c \<noteq> CHR ''-''" "c \<noteq> CHR ''.''" "c \<noteq> CHR 0xB0"
  using assms by (auto simp: is_digit_def is_space_def)

lemma dropWhile_id: "s = [] \<or> \<not> P (hd s) \<Longrightarrow> dropWhile P s = s"
  by (cases s) auto

lemma trim_id:
  assumes "s \<noteq> []" "\<not> is_space (hd s)" "\<not> is_space (last s)"
  shows "trim s = s"
proof -
  have "hd (rev s) = last s" using assms(1) by (simp add: hd_rev)
  then have "dropWhile is_space (rev s) = rev s"
    using assms(3) by (intro dropWhile_id) simp
  moreover have "dropWhile is_space s = s"
    using assms(2) by (intro dropWhile_id) simp
  ultimately show ?thesis by (simp add: trim_def)
qed

lemma hd_digit_append: "ds \<noteq> [] \<Longrightarrow> \<forall>c \<in> set ds. is_digit c \<Longrightarrow> is_digit (hd (ds @ r))"
  by (cases ds) auto

lemma deg_not_digit: "\<not> is_digit (CHR 0xB0)" "\<not> is_digit (CHR ''.'')" "\<not> is_space (CHR 0xB0)"
  "\<not> is_space (CHR ''.'')" "\<not> is_space (CHR ''+'')" "\<not> is_space (CHR ''-'')"
  by (simp_all add: is_digit_def is_space_def)

lemma decimal_shape_parts:
  assumes sg: "sg = [] \<or> sg = ''+'' \<or> sg = ''-''"
    and ds: "ds \<noteq> []" "\<forall>c \<in> set ds. is_digit c"
    and dot: "(dot = [] \<and> fs = []) \<or> dot = ''.''"
    and fs: "\<forall>c \<in> set fs. is_digit c"
    and deg: "deg = [] \<or> deg = [CHR 0xB0]"
  shows "optChar (\<lambda>c. c = CHR ''+'' \<or> c = CHR ''-'') (sg @ ds @ dot @ fs @ deg)
           = (sg, ds @ dot @ fs @ deg)"
    and "takeWhile is_digit (ds @ dot @ fs @ deg) = ds"
    and "dropWhile is_digit (ds @ dot @ fs @ deg) = dot @ fs @ deg"
    and "optChar (\<lambda>c. c = CHR ''.'') (dot @ fs @ deg) = (dot, fs @ deg)"
    and "takeWhile is_digit (fs @ deg) = fs"
    and "dropWhile is_digit (fs @ deg) = deg"
    and "optChar (\<lambda>c. c = CHR 0xB0) deg = (deg, [])"
proof -
  have hd_ds: "is_digit (hd (ds @ dot @ fs @ deg))" by (rule hd_digit_append [OF ds])
  show "optChar (\<lambda>c. c = CHR ''+'' \<or> c = CHR ''-'') (sg @ ds @ dot @ fs @ deg)
           = (sg, ds @ dot @ fs @ deg)"
    by (rule optChar_append) (use sg hd_ds digit_facts in auto)
  have rest: "dot @ fs @ deg = [] \<or> \<not> is_digit (hd (dot @ fs @ deg))"
    using dot deg by (auto simp: deg_not_digit)
  show "takeWhile is_digit (ds @ dot @ fs @ deg) = ds"
    and "dropWhile is_digit (ds @ dot @ fs @ deg) = dot @ fs @ deg"
    using takeWhile_digits [OF ds(2) rest] by simp_all
  have fs_deg: "fs @ deg = [] \<or> hd (fs @ deg) \<noteq> CHR ''.''"
  proof (cases fs)
    case Nil
    then show ?thesis using deg by auto
  next
    case (Cons c cs)
    then have "is_digit c" using fs by simp
    then show ?thesis using Cons digit_facts(4) by auto
  qed
  show "optChar (\<lambda>c. c = CHR ''.'') (dot @ fs @ deg) = (dot, fs @ deg)"
    by (rule optChar_append) (use dot fs_deg in auto)
  have deg_nd: "deg = [] \<or> \<not> is_digit (hd deg)" using deg by (auto simp: deg_not_digit)
  show "takeWhile is_digit (fs @ deg) = fs" and "dropWhile is_digit (fs @ deg) = deg"
    using takeWhile_digits [OF fs deg_nd] by simp_all
  show "optChar (\<lambda>c. c = CHR 0xB0) deg = (deg, [])"
    using optChar_append [of deg "\<lambda>c. c = CHR 0xB0" "[]"] deg by auto
qed

lemma matchDecimal_shape:
  assumes sg: "sg = [] \<or> sg = ''+'' \<or> sg = ''-''"
    and ds: "ds \<noteq> []" "\<forall>c \<in> set ds. is_digit c"
    and dot: "(dot = [] \<and> fs = []) \<or> dot = ''.''"
    and fs: "\<forall>c \<in> set fs. is_digit c"
    and deg: "deg = [] \<or> deg = [CHR 0xB0]"
  shows "matchDecimal (sg @ ds @ dot @ fs @ deg) = Some (sg @ ds @ dot @ fs)"
  unfolding matchDecimal_def
  by (simp add: decimal_shape_parts [OF assms] ds(1))

lemma parseFloat_shape:
  assumes sg: "sg = [] \<or> sg = ''+'' \<or> sg = ''-''"
    and ds: "ds \<noteq> []" "\<forall>c \<in> set ds. is_digit c"
    and dot: "(dot = [] \<and> fs = []) \<or> dot = ''.''"
    and fs: "\<forall>c \<in> set fs. is_digit c"
  shows "parseFloat (sg @ ds @ dot @ fs) =
           (if sg = ''-'' then -1 else 1) *
           (real (digitsValue ds) + real (digitsValue fs) / 10 ^ length fs)"
proof -
  have deg: "[] = [] \<or> [] = [CHR 0xB0]" by simp
  note parts = decimal_shape_parts [OF sg ds dot fs deg, simplified]
  have tw: "takeWhile is_digit fs = fs" using fs by (simp add: takeWhile_eq_all_conv)
  show ?thesis
    unfolding parseFloat_def using dot
    by (auto simp: parts tw Let_def)
qed

lemma trim_shape:
  assumes sg: "sg = [] \<or> sg = ''+'' \<or> sg = ''-''"
    and ds: "ds \<noteq> []" "\<forall>c \<in> set ds. is_digit c"
    and dot: "(dot = [] \<and> fs = []) \<or> dot = ''.''"
    and fs: "\<forall>c \<in> set fs. is_digit c"
    and deg: "deg = [] \<or> deg = [CHR 0xB0]"
  shows "trim (sg @ ds @ dot @ fs @ deg) = sg @ ds @ dot @ fs @ deg"
proof (rule trim_id)
  show "sg @ ds @ dot @ fs @ deg \<noteq> []" using ds by simp
  have "is_digit (hd (ds @ dot @ fs @ deg))" by (rule hd_digit_append [OF ds])
  then have "\<not> is_space (hd (ds @ dot @ fs @ deg))" by (rule digit_facts)
  then show "\<not> is_space (hd (sg @ ds @ dot @ fs @ deg))"
    using sg by (auto simp: deg_not_digit)
  have "last (sg @ ds @ dot @ fs @ deg) =
          (if deg \<noteq> [] then last deg else if fs \<noteq> [] then last fs
           else if dot \<noteq> [] then last dot else last ds)"
    using ds(1) by simp
  moreover have "\<not> is_space (last ds)" using ds digit_facts(1) last_in_set by blast
  moreover have "fs \<noteq> [] \<Longrightarrow> \<not> is_space (last fs)" using fs digit_facts(1) last_in_set by blast
  ultimately show "\<not> is_space (last (sg @ ds @ dot @ fs @ deg))"
    using dot deg by (auto simp: deg_not_digit)
qed

lemma parseCoordinate_examples:
  "parseCoordinate ''999'' ''dec'' = Some 999"
  "parseCoordinate ''12.5'' ''ra'' = Some 12.5"
  "parseCoordinate ''400'' ''ra'' = Some 400"
  "parseCoordinate ''-120.25'' ''dec'' = Some (-120.25)"
  by (simp_all add: parseCoordinate_def trim_def is_space_def matchDecimal_def optChar_def
      is_digit_def parseFloat_def digitsValue_def digitValue_def)

lemma hms_example: "parseCoordinate ''12h 30m 45s'' ''ra'' = Some 187.6875"
  by (simp add: parseCoordinate_def trim_def is_space_def matchDecimal_def optChar_def
      is_digit_def parseFloat_def digitsValue_def digitValue_def matchHmsAt_def matchNumberAt_def
      HOURS_TO_DEG_def)

lemma dms_example: "parseCoordinate ''-41:16:09'' ''dec'' = Some (- (41 + 16 / 60 + 9 / 3600))"
  by (simp add: parseCoordinate_def trim_def is_space_def matchDecimal_def optChar_def
      is_digit_def parseFloat_def digitsValue_def digitValue_def matchHmsAt_def matchNumberAt_def
      matchDmsAt_def HOURS_TO_DEG_def)

lemma null_example: "parseCoordinate ''abc'' ''dec'' = None"
  by (simp add: parseCoordinate_def trim_def is_space_def matchDecimal_def optChar_def
      is_digit_def parseFloat_def digitsValue_def digitValue_def matchHmsAt_def matchNumberAt_def
      matchDmsAt_def HOURS_TO_DEG_def)

text \<open>
  C10. The decimal-degree branch of \<open>parseCoordinate\<close> validates no range and converts
  no unit, for either type: for a string of the form \<^verbatim>\<open>[+-]digits[.digits][\<degree>]\<close> it
  returns the decimal value of the number, whatever the type. So \<^verbatim>\<open>"999"\<close> with type
  \<^verbatim>\<open>'dec'\<close> gives 999, outside \<open>[-90, 90]\<close>, and with type \<^verbatim>\<open>'ra'\<close> a bare decimal is
  returned as it is: \<^verbatim>\<open>"12.5"\<close> stays 12.5 (no conversion of hours by 15) and \<^verbatim>\<open>"400"\<close>
  stays 400 (no normalisation into \<open>[0, 360)\<close>).
\<close>

theorem parseCoordinate_decimal_unvalidated:
  assumes "sg = [] \<or> sg = ''+'' \<or> sg = ''-''"
    and "ds \<noteq> []" and "\<forall>c \<in> set ds. is_digit c"
    and "(dot = [] \<and> fs = []) \<or> dot = ''.''"
    and "\<forall>c \<in> set fs. is_digit c"
    and "deg = [] \<or> deg = [CHR 0xB0]"
  shows "parseCoordinate (sg @ ds @ dot @ fs @ deg) ty =
           Some ((if sg = ''-'' then -1 else 1) *
                 (real (digitsValue ds) + real (digitsValue fs) / 10 ^ length fs))
         \<and> parseCoordinate ''999'' ''dec'' = Some 999
         \<and> parseCoordinate ''12.5'' ''ra'' = Some 12.5
         \<and> parseCoordinate ''400'' ''ra'' = Some 400"
proof -
  have "parseCoordinate (sg @ ds @ dot @ fs @ deg) ty = Some (parseFloat (sg @ ds @ dot @ fs))"
    unfolding parseCoordinate_def
    by (simp add: trim_shape [OF assms] matchDecimal_shape [OF assms])
  then show ?thesis
    by (simp only: parseFloat_shape [OF assms(1-5)] parseCoordinate_examples simp_thms)
qed

theorem parseCoordinate_decimal_unvalidated_witness:
  "parseCoordinate (''-41.5'' @ [CHR 0xB0]) ''ra'' = Some (-41.5)
   \<and> parseCoordinate ''999'' ''dec'' = Some 999"
  using parseCoordinate_decimal_unvalidated
    [of "''-''" "''41''" "''.''" "''5''" "[CHR 0xB0]" "''ra''"]
  by (simp add: is_digit_def digitsValue_def digitValue_def)


subsection \<open>Rise, transit and set\<close>

lemma toRadians_0: "toRadians 0 = 0" by (simp add: toRadians_def)

lemma toDegrees_half_pi: "toDegrees (pi / 2) = 90" by (simp add: toDegrees_def RAD_TO_DEG_def)

lemma dateToJulian_example: "dateToJulian (setUTCHours0 exampleDate) = 4903089 / 2"
  by (simp add: dateToJulian_def setUTCHours0_def exampleDate_def)

lemma getTime_example: "getTime (setUTCHours0 exampleDate) = 946684800000"
  by (simp add: getTime_def setUTCHours0_def exampleDate_def MakeDate_def MakeDay_def MakeTime_def
      DayFromYear_def DayWithinYear_def)

lemma gmst_example: "gmst (4903089 / 2) = 6033980954328675586593306871/60359248428255000000000000"
  by (simp add: gmst_def J2000_def JULIAN_CENTURY_def GMST_AT_J2000_def GMST_RATE_def
      normalizeAngle_def js_rem_def js_trunc_def Let_def)

lemma lst_example: "lst (4903089 / 2) 0 = 6033980954328675586593306871/60359248428255000000000000"
  by (simp add: lst_def gmst_example normalizeAngle_def js_rem_def js_trunc_def Let_def)

lemma calculateTransit_example: "calculateTransit 0 0 exampleDate = 946660873238"
  by (simp add: calculateTransit_def dateToJulian_example getTime_example lst_example
      HOURS_TO_DEG_def SIDEREAL_RATIO_def js_trunc_def Let_def)

lemma rts_example:
  "calculateRiseTransitSet 0 0 0 0 exampleDate 0 =
     \<lparr>rise = Some (Date 946639273238), transit = Some (Date 946660873238),
      set_t = Some (Date 946682473238), circumpolar = False, neverRises = False\<rparr>"
  by (simp add: calculateRiseTransitSet_def toRadians_0 js_div_def toDegrees_half_pi
      calculateTransit_example HOURS_TO_DEG_def newDate_def js_trunc_def Let_def)

lemma claimed_example:
  "newDate (real_of_int (calculateTransit 0 0 exampleDate) - claimed_riseOffset 90) = Date 946639332215"
  "newDate (real_of_int (calculateTransit 0 0 exampleDate) + claimed_riseOffset 90) = Date 946682414260"
  by (simp_all add: claimed_riseOffset_def calculateTransit_example HOURS_TO_DEG_def
      SIDEREAL_RATIO_def newDate_def js_trunc_def)

text \<open>
  C1, as stated, fails. With declination, latitude and horizon angle 0 the hour angle
  \<open>H\<close> is 90 degrees; the program returns the transit time minus and plus 21600000 ms
  (\<open>H / 15\<close> hours, undivided), where the claim's offset, divided by the
  sidereal-to-solar ratio, would give times about 59 seconds nearer to the transit.
\<close>

theorem calculateRiseTransitSet_sidereal_counterexample:
  "toDegrees (arccos 0) = 90
   \<and> rise (calculateRiseTransitSet 0 0 0 0 exampleDate 0) = Some (Date 946639273238)
   \<and> transit (calculateRiseTransitSet 0 0 0 0 exampleDate 0) = Some (Date 946660873238)
   \<and> set_t (calculateRiseTransitSet 0 0 0 0 exampleDate 0) = Some (Date 946682473238)
   \<and> rise (calculateRiseTransitSet 0 0 0 0 exampleDate 0) \<noteq>
       Some (newDate (real_of_int (calculateTransit 0 0 exampleDate) - claimed_riseOffset 90))
   \<and> set_t (calculateRiseTransitSet 0 0 0 0 exampleDate 0) \<noteq>
       Some (newDate (real_of_int (calculateTransit 0 0 exampleDate) + claimed_riseOffset 90))"
  by (simp add: rts_example claimed_example toDegrees_half_pi)

text \<open>
  C1, amended. In the normal outcome of \<open>calculateRiseTransitSet\<close>, that is for every
  input with \<open>-1 \<le> cos H \<le> 1\<close>, the returned rise is the transit time minus
  \<open>H / 15\<close> hours and the set is the transit time plus \<open>H / 15\<close> hours, each
  truncated to a whole millisecond, where \<open>H / 15\<close> hours is \<open>H / 15 * 3600000\<close> ms as it
  is: the offset is not divided by the sidereal-to-solar ratio (only \<open>calculateTransit\<close>
  divides by it, the offset of the transit from midnight).
\<close>

theorem calculateRiseTransitSet_normal:
  assumes "cos (toRadians lat) * cos (toRadians d) \<noteq> 0"
    and "cosH = (sin (toRadians hz) - sin (toRadians lat) * sin (toRadians d)) /
                (cos (toRadians lat) * cos (toRadians d))"
    and "-1 \<le> cosH" and "cosH \<le> 1"
  shows "calculateRiseTransitSet r d lat lon date hz =
     \<lparr>rise = Some (Date (js_trunc (real_of_int (calculateTransit r lon date)
                                   - toDegrees (arccos cosH) / 15 * 3600000))),
      transit = Some (Date (calculateTransit r lon date)),
      set_t = Some (Date (js_trunc (real_of_int (calculateTransit r lon date)
                                   + toDegrees (arccos cosH) / 15 * 3600000))),
      circumpolar = False, neverRises = False\<rparr>"
  using assms
  by (simp add: calculateRiseTransitSet_def js_div_def HOURS_TO_DEG_def newDate_def Let_def)

theorem calculateRiseTransitSet_normal_witness:
  "cos (toRadians 0) * cos (toRadians 0) \<noteq> 0
   \<and> calculateRiseTransitSet 0 0 0 0 exampleDate 0 =
     \<lparr>rise = Some (Date (946660873238 - 21600000)),
      transit = Some (Date 946660873238),
      set_t = Some (Date (946660873238 + 21600000)),
      circumpolar = False, neverRises = False\<rparr>"
  using calculateRiseTransitSet_normal
    [where lat = 0 and d = 0 and cosH = 0 and hz = 0 and r = 0 and lon = 0 and date = exampleDate]
  by (simp add: toRadians_0 toDegrees_half_pi calculateTransit_example js_trunc_def)

subsection \<open>Julian Date round trip\<close>

lemma int_div_eqI:
  fixes a b q :: int
  assumes "b * q \<le> a" "a < b * q + b"
  shows "a div b = q"
  using int_div_pos_eq [of a b q "a - b * q"] assms by simp

lemma floor_365_25: "\<lfloor>365.25 * real_of_int n\<rfloor> = (1461 * n) div 4"
proof -
  have "365.25 * real_of_int n = real_of_int (1461 * n) / real_of_int 4" by simp
  then show ?thesis by (simp only: floor_divide_of_int_eq)
qed

lemma floor_30_6001: "\<lfloor>30.6001 * real_of_int n\<rfloor> = (306001 * n) div 10000"
proof -
  have "30.6001 * real_of_int n = real_of_int (306001 * n) / real_of_int 10000" by simp
  then show ?thesis by (simp only: floor_divide_of_int_eq)
qed

lemma floor_century: "\<lfloor>(real_of_int z - 1867216.25) / 36524.25\<rfloor> = (4 * z - 7468865) div 146097"
proof -
  have "(real_of_int z - 1867216.25) / 36524.25 =
        real_of_int (4 * z - 7468865) / real_of_int 146097" by simp
  then show ?thesis by (simp only: floor_divide_of_int_eq)
qed

lemma floor_year: "\<lfloor>(real_of_int b - 122.1) / 365.25\<rfloor> = (20 * b - 2442) div 7305"
proof -
  have "(real_of_int b - 122.1) / 365.25 = real_of_int (20 * b - 2442) / real_of_int 7305"
    by simp
  then show ?thesis by (simp only: floor_divide_of_int_eq)
qed

lemma floor_month: "\<lfloor>real_of_int k / 30.6001\<rfloor> = (10000 * k) div 306001"
proof -
  have "real_of_int k / 30.6001 = real_of_int (10000 * k) / real_of_int 306001" by simp
  then show ?thesis by (simp only: floor_divide_of_int_eq)
qed

lemma floor_quarter: "\<lfloor>real_of_int a / 4\<rfloor> = a div 4"
  using floor_divide_of_int_eq [of a 4, where ?'a = real] by simp

lemma floor_hundredth: "\<lfloor>real_of_int a / 100\<rfloor> = a div 100"
  using floor_divide_of_int_eq [of a 100, where ?'a = real] by simp

lemma quarter_days: "(1461 * n) div 4 = 365 * n + n div (4::int)"
proof -
  have "1461 * n = n + 4 * (365 * n)" by simp
  then have "(1461 * n) div 4 = (n + 4 * (365 * n)) div 4" by simp
  also have "\<dots> = 365 * n + n div 4" by (simp only: div_mult_self2)
  finally show ?thesis .
qed

lemma split100: fixes jy :: int
  shows "jy = 100 * (jy div 100) + jy mod 100" "0 \<le> jy mod 100" "jy mod 100 \<le> 99"
  by simp_all

lemma split4: fixes a :: int
  shows "4 * (a div 4) \<le> a" "a \<le> 4 * (a div 4) + 3"
proof -
  have "a = 4 * (a div 4) + a mod 4" by simp
  moreover have "0 \<le> a mod 4" "a mod 4 < 4" by simp_all
  ultimately show "4 * (a div 4) \<le> a" "a \<le> 4 * (a div 4) + 3" by linarith+
qed

lemma century_core:
  fixes jy w :: int
  assumes w: "123 \<le> w" "w \<le> 488"
    and leap: "w = 488 \<Longrightarrow> (jy + 1) mod 100 = 0 \<Longrightarrow> (jy + 1) mod 400 = 0"
  shows "(4 * ((1461 * (jy + 4716)) div 4 + w + (2 - jy div 100 + jy div 100 div 4) - 1524)
           - 7468865) div 146097 = jy div 100 - 4"
proof -
  define a where "a = jy div 100"
  define r where "r = jy mod 100"
  define a4 where "a4 = a div 4"
  define r4 where "r4 = r div 4"
  have jy: "jy = 100 * a + r" and r: "0 \<le> r" "r \<le> 99"
    unfolding a_def r_def by (rule split100)+
  have a4: "4 * a4 \<le> a" "a \<le> 4 * a4 + 3" unfolding a4_def by (rule split4)+
  have r4: "4 * r4 \<le> r" "r \<le> 4 * r4 + 3" unfolding r4_def by (rule split4)+
  have r4_bounds: "0 \<le> r4" "r4 \<le> 24" using r4 r by linarith+
  have jy4: "(jy + 4716) div 4 = 25 * a + r4 + 1179"
  proof -
    have "jy + 4716 = r + 4 * (25 * a + 1179)" unfolding jy by simp
    then have "(jy + 4716) div 4 = (r + 4 * (25 * a + 1179)) div 4" by simp
    also have "\<dots> = (25 * a + 1179) + r div 4" by (simp only: div_mult_self2)
    finally show ?thesis unfolding r4_def by simp
  qed
  have leap': "a = 4 * a4 + 3" if w488: "w = 488" and r99: "r = 99"
  proof -
    have "jy + 1 = 100 * (a + 1)" using r99 jy by simp
    then have "(jy + 1) mod 100 = 0" by simp
    then have "(jy + 1) mod 400 = 0" using leap w488 by simp
    then have "(100 * (a + 1)) mod (100 * 4) = 0" using \<open>jy + 1 = 100 * (a + 1)\<close> by simp
    then have "100 * ((a + 1) mod 4) = 0" by (simp only: mod_mult_mult1)
    then have m: "(a + 1) mod 4 = 0" by simp
    have "a + 1 = 4 * ((a + 1) div 4) + (a + 1) mod 4" by simp
    then have k: "a + 1 = 4 * ((a + 1) div 4)" using m by simp
    have "a4 < (a + 1) div 4" using k a4 by linarith
    moreover have "(a + 1) div 4 < a4 + 2" using k a4 by linarith
    ultimately have "(a + 1) div 4 = a4 + 1" by linarith
    then show ?thesis using k by linarith
  qed
  define z where "z = (1461 * (jy + 4716)) div 4 + w + (2 - a + a4) - 1524"
  have X: "(1461 * (jy + 4716)) div 4 = 365 * (jy + 4716) + (25 * a + r4 + 1179)"
    by (simp only: quarter_days jy4)
  have z: "4 * z - 7468865 = 146096 * a + 4 * a4 + 1460 * r + 4 * r4 + 4 * w - 584877"
    unfolding z_def X by (simp add: jy)
  have e: "146097 * (a - 4) = 146097 * a - 584388" by simp
  have lower: "146097 * (a - 4) \<le> 4 * z - 7468865"
    unfolding z e using a4 r r4 r4_bounds w by linarith
  have upper: "4 * z - 7468865 < 146097 * (a - 4) + 146097"
  proof (cases "w = 488 \<and> r = 99")
    case True
    then show ?thesis unfolding z e using leap' a4 r r4 r4_bounds w by linarith
  next
    case False
    then have "w \<le> 487 \<or> r \<le> 98" using w r by linarith
    then show ?thesis unfolding z e using a4 r r4 r4_bounds w by linarith
  qed
  have "(4 * z - 7468865) div 146097 = a - 4" by (rule int_div_eqI [OF lower upper])
  then show ?thesis unfolding z_def a_def a4_def by simp
qed

lemma year_core:
  fixes jy w :: int
  assumes w: "123 \<le> w" "w \<le> 488"
    and leap: "w = 488 \<Longrightarrow> (jy + 1) mod 4 = 0"
  shows "(20 * ((1461 * (jy + 4716)) div 4 + w) - 2442) div 7305 = jy + 4716"
proof -
  define c where "c = jy + 4716"
  define k where "k = c div 4"
  have k: "4 * k \<le> c" "c \<le> 4 * k + 3" unfolding k_def by (rule split4)+
  have k3: "c = 4 * k + 3" if w488: "w = 488"
  proof -
    define q where "q = (jy + 1) div 4"
    have m: "(jy + 1) mod 4 = 0" using leap w488 by simp
    have "jy + 1 = 4 * ((jy + 1) div 4) + (jy + 1) mod 4" by simp
    then have j: "jy + 1 = 4 * q" using m unfolding q_def by simp
    have cq: "c + 1 = 4 * q + 4716" unfolding c_def using j by linarith
    then have "k < q + 1179" "q + 1179 < k + 2" using k by linarith+
    then have "q + 1179 = k + 1" by linarith
    then show ?thesis using cq by linarith
  qed
  have X: "(1461 * c) div 4 = 365 * c + k" unfolding k_def by (rule quarter_days)
  have e: "20 * ((1461 * c) div 4 + w) - 2442 = 7300 * c + 20 * k + 20 * w - 2442"
    unfolding X by simp
  have lower: "7305 * c \<le> 20 * ((1461 * c) div 4 + w) - 2442"
    unfolding e using k w by linarith
  have upper: "20 * ((1461 * c) div 4 + w) - 2442 < 7305 * c + 7305"
  proof (cases "w = 488")
    case True
    then show ?thesis unfolding e using k3 by linarith
  next
    case False
    then have "w \<le> 487" using w by linarith
    then show ?thesis unfolding e using k by linarith
  qed
  have "(20 * ((1461 * c) div 4 + w) - 2442) div 7305 = c" by (rule int_div_eqI [OF lower upper])
  then show ?thesis unfolding c_def .
qed

lemma month_floor_table:
  "(306001 * (4::int)) div 10000 = 122" "(306001 * (5::int)) div 10000 = 153"
  "(306001 * (6::int)) div 10000 = 183" "(306001 * (7::int)) div 10000 = 214"
  "(306001 * (8::int)) div 10000 = 244" "(306001 * (9::int)) div 10000 = 275"
  "(306001 * (10::int)) div 10000 = 306" "(306001 * (11::int)) div 10000 = 336"
  "(306001 * (12::int)) div 10000 = 367" "(306001 * (13::int)) div 10000 = 397"
  "(306001 * (14::int)) div 10000 = 428" "(306001 * (15::int)) div 10000 = 459"
  by simp_all

lemma month_of_offset:
  fixes e w :: int
  assumes "306001 * e \<le> 10000 * w" "10000 * w < 306001 * e + 306001"
  shows "(10000 * w) div 306001 = e"
  by (rule int_div_eqI) (use assms in simp_all)

lemma month_core:
  fixes jm d :: int
  assumes jm: "3 \<le> jm" "jm \<le> 14" and d: "1 \<le> d"
    and dmax: "d \<le> (if jm = 14 then 29 else if jm = 4 \<or> jm = 6 \<or> jm = 9 \<or> jm = 11 then 30 else 31)"
  shows "(10000 * ((306001 * (jm + 1)) div 10000 + d)) div 306001 = jm + 1
         \<and> 123 \<le> (306001 * (jm + 1)) div 10000 + d
         \<and> (306001 * (jm + 1)) div 10000 + d \<le> 488
         \<and> ((306001 * (jm + 1)) div 10000 + d = 488 \<longrightarrow> jm = 14 \<and> d = 29)"
proof -
  consider "jm = 3" | "jm = 4" | "jm = 5" | "jm = 6" | "jm = 7" | "jm = 8" | "jm = 9"
    | "jm = 10" | "jm = 11" | "jm = 12" | "jm = 13" | "jm = 14"
  proof -
    have "jm = 3 \<or> jm = 4 \<or> jm = 5 \<or> jm = 6 \<or> jm = 7 \<or> jm = 8 \<or> 9 \<le> jm" using jm by linarith
    moreover have "jm = 9 \<or> jm = 10 \<or> jm = 11 \<or> jm = 12 \<or> jm = 13 \<or> jm = 14" if "9 \<le> jm"
      using that jm by linarith
    ultimately show ?thesis using that by blast
  qed
  then show ?thesis
  proof cases
    case 1
    have "(10000 * (122 + d)) div 306001 = 4" using d dmax 1 by (intro month_of_offset) simp_all
    then show ?thesis using 1 d dmax by (simp add: month_floor_table)
  next
    case 2
    have "(10000 * (153 + d)) div 306001 = 5" using d dmax 2 by (intro month_of_offset) simp_all
    then show ?thesis using 2 d dmax by (simp add: month_floor_table)
  next
    case 3
    have "(10000 * (183 + d)) div 306001 = 6" using d dmax 3 by (intro month_of_offset) simp_all
    then show ?thesis using 3 d dmax by (simp add: month_floor_table)
  next
    case 4
    have "(10000 * (214 + d)) div 306001 = 7" using d dmax 4 by (intro month_of_offset) simp_all
    then show ?thesis using 4 d dmax by (simp add: month_floor_table)
  next
    case 5
    have "(10000 * (244 + d)) div 306001 = 8" using d dmax 5 by (intro month_of_offset) simp_all
    then show ?thesis using 5 d dmax by (simp add: month_floor_table)
  next
    case 6
    have "(10000 * (275 + d)) div 306001 = 9" using d dmax 6 by (intro month_of_offset) simp_all
    then show ?thesis using 6 d dmax by (simp add: month_floor_table)
  next
    case 7
    have "(10000 * (306 + d)) div 306001 = 10" using d dmax 7 by (intro month_of_offset) simp_all
    then show ?thesis using 7 d dmax by (simp add: month_floor_table)
  next
    case 8
    have "(10000 * (336 + d)) div 306001 = 11" using d dmax 8 by (intro month_of_offset) simp_all
    then show ?thesis using 8 d dmax by (simp add: month_floor_table)
  next
    case 9
    have "(10000 * (367 + d)) div 306001 = 12" using d dmax 9 by (intro month_of_offset) simp_all
    then show ?thesis using 9 d dmax by (simp add: month_floor_table)
  next
    case 10
    have "(10000 * (397 + d)) div 306001 = 13" using d dmax 10 by (intro month_of_offset) simp_all
    then show ?thesis using 10 d dmax by (simp add: month_floor_table)
  next
    case 11
    have "(10000 * (428 + d)) div 306001 = 14" using d dmax 11 by (intro month_of_offset) simp_all
    then show ?thesis using 11 d dmax by (simp add: month_floor_table)
  next
    case 12
    have "(10000 * (459 + d)) div 306001 = 15" using d dmax 12 by (intro month_of_offset) simp_all
    then show ?thesis using 12 d dmax by (simp add: month_floor_table)
  qed
qed

lemma floor_int_plus_frac:
  fixes f :: real
  assumes "0 \<le> f" "f < 1"
  shows "\<lfloor>real_of_int k + f\<rfloor> = k"
  using assms by (intro floor_unique) simp_all

lemma julianToDate_steps:
  fixes N :: int and f :: real
  assumes f: "0 \<le> f" "f < 1" and N: "2299161 \<le> N"
    and alpha: "alpha = (4 * N - 7468865) div 146097"
    and b: "b = N + 1 + alpha - alpha div 4 + 1524"
    and c: "c = (20 * b - 2442) div 7305"
    and d: "d = (1461 * c) div 4"
    and e: "e = (10000 * (b - d)) div 306001"
    and month: "month = (if e < 14 then e - 1 else e - 13)"
    and yr: "yr = (if month > 2 then c - 4716 else c - 4715)"
    and dayOfMonth: "dayOfMonth = b - d - (306001 * e) div 10000"
    and hrs: "hrs = f * 24"
    and mins: "mins = (hrs - real_of_int \<lfloor>hrs\<rfloor>) * 60"
    and secs: "secs = (mins - real_of_int \<lfloor>mins\<rfloor>) * 60"
  shows "julianToDate (real_of_int N - 0.5 + f) =
           Date_UTC yr (month - 1) dayOfMonth \<lfloor>hrs\<rfloor> \<lfloor>mins\<rfloor> \<lfloor>secs\<rfloor> 0"
proof -
  define jd where "jd = real_of_int N - 0.5 + f"
  have z: "\<lfloor>jd + 0.5\<rfloor> = N"
    unfolding jd_def using f by (intro floor_unique) simp_all
  have ff: "jd + 0.5 - real_of_int N = f" unfolding jd_def by simp
  have N': "(N \<ge> 2299161) = True" using N by simp
  show ?thesis
    unfolding jd_def [symmetric] julianToDate_def Let_def secs mins hrs dayOfMonth yr month e d c b alpha
    by (simp only: z ff N' if_True floor_century floor_quarter floor_year floor_365_25
        floor_month floor_30_6001 floor_int_plus_frac [OF f] add_diff_cancel_left')
qed

lemma julian_early_example:
  "dateToJulian earlyDate = 4172605 / 2"
  by (simp add: dateToJulian_def earlyDate_def)

lemma julianToDate_early: "julianToDate (4172605 / 2) = Date_UTC 999 11 27 0 0 0 0"
  by (simp add: julianToDate_def Let_def)

lemma getTime_early: "getTime earlyDate = -30610224000000"
  by (simp add: getTime_def earlyDate_def MakeDate_def MakeDay_def MakeTime_def DayFromYear_def
      DayWithinYear_def)

lemma Date_UTC_early: "Date_UTC 999 11 27 0 0 0 0 = -30610656000000"
  by (simp add: Date_UTC_def MakeDate_def MakeDay_def MakeTime_def DayFromYear_def
      DayWithinYear_def DaysInMonth_def InLeapYear_def upto.simps)

text \<open>
  C4, as stated, fails: \<open>dateToJulian\<close> applies the Gregorian correction to every date,
  while \<open>julianToDate\<close> applies it only from Julian Day 2299161 (1582-10-15) on and reads
  earlier days in the Julian calendar. For 1000-01-01T00:00:00Z the round trip returns
  999-12-27T00:00:00Z, five days earlier.
\<close>

theorem julian_round_trip_counterexample:
  "validInstant earlyDate
   \<and> julianToDate (dateToJulian earlyDate) = Date_UTC 999 11 27 0 0 0 0
   \<and> getTime earlyDate - julianToDate (dateToJulian earlyDate) = 432000000
   \<and> \<not> \<bar>getTime earlyDate - julianToDate (dateToJulian earlyDate)\<bar> \<le> 1000"
proof -
  have "validInstant earlyDate"
    by (simp add: validInstant_def earlyDate_def DaysInMonth_def)
  then show ?thesis
    by (simp add: julian_early_example julianToDate_early getTime_early Date_UTC_early)
qed

lemma reform_bound:
  fixes jy w :: int
  assumes "(1583 \<le> jy \<and> 123 \<le> w) \<or> (jy = 1582 \<and> 351 \<le> w)"
  shows "2299161 \<le> (1461 * (jy + 4716)) div 4 + w + (2 - jy div 100 + jy div 100 div 4) - 1524"
  using assms
proof
  assume late: "1583 \<le> jy \<and> 123 \<le> w"
  define q4 where "q4 = (jy + 4716) div 4"
  define a where "a = jy div 100"
  define a4 where "a4 = a div 4"
  have q4: "jy + 4716 \<le> 4 * q4 + 3" unfolding q4_def by (rule split4)
  have a: "100 * a \<le> jy" unfolding a_def using split100 [of jy] by linarith
  have a4: "a \<le> 4 * a4 + 3" unfolding a4_def by (rule split4)
  have X: "(1461 * (jy + 4716)) div 4 = 365 * jy + 1721340 + q4"
    unfolding q4_def quarter_days by simp
  have "2299161 \<le> 365 * jy + 1721340 + q4 + w + (2 - a + a4) - 1524"
    using late q4 a a4 by linarith
  then show ?thesis unfolding X a_def a4_def .
next
  assume "jy = 1582 \<and> 351 \<le> w"
  then show ?thesis by simp
qed

lemma month_floor_late:
  fixes jm :: int
  assumes "10 \<le> jm" "jm \<le> 14"
  shows "336 \<le> (306001 * (jm + 1)) div 10000"
    and "11 \<le> jm \<Longrightarrow> 367 \<le> (306001 * (jm + 1)) div 10000"
proof -
  have cases: "jm = 10 \<or> jm = 11 \<or> jm = 12 \<or> jm = 13 \<or> jm = 14" using assms by linarith
  show "336 \<le> (306001 * (jm + 1)) div 10000"
    using cases by (elim disjE) (simp_all add: month_floor_table)
  show "367 \<le> (306001 * (jm + 1)) div 10000" if "11 \<le> jm"
    using cases that by (elim disjE) (simp_all add: month_floor_table)
qed

lemma quarter_shift: "(a - 4) div 4 = a div 4 - (1::int)"
proof -
  have "a - 4 = a + (- 1) * 4" by simp
  then have "(a - 4) div 4 = (a + (- 1) * 4) div 4" by simp
  also have "\<dots> = - 1 + a div 4" by (simp only: div_mult_self1)
  finally show ?thesis by simp
qed

lemma dateToJulian_split:
  assumes jy: "jy = (if utcMonth i + 1 \<le> 2 then utcFullYear i - 1 else utcFullYear i)"
    and jm: "jm = (if utcMonth i + 1 \<le> 2 then utcMonth i + 1 + 12 else utcMonth i + 1)"
    and N: "N = (1461 * (jy + 4716)) div 4 + (306001 * (jm + 1)) div 10000 + utcDate i
                + (2 - jy div 100 + jy div 100 div 4) - 1524"
    and h: "h = real_of_int (utcHours i) + real_of_int (utcMinutes i) / 60 +
              real_of_int (utcSeconds i) / 3600 + real_of_int (utcMilliseconds i) / 3600000"
  shows "dateToJulian i = real_of_int N - 0.5 + h / 24"
proof -
  have "dateToJulian i =
      real_of_int ((1461 * (jy + 4716)) div 4) + real_of_int ((306001 * (jm + 1)) div 10000) +
      real_of_int (utcDate i) + h / 24 +
      real_of_int (2 - jy div 100 + jy div 100 div 4) - 1524.5"
    unfolding dateToJulian_def Let_def jy [symmetric] jm [symmetric] h [symmetric]
    by (simp only: floor_365_25 floor_30_6001 floor_hundredth floor_quarter)
  then show ?thesis unfolding N by simp
qed

text \<open>
  The date part of the round trip: for an instant on or after 1582-10-15, and a fraction
  of a day \<open>f\<close> in place of its time of day, \<open>julianToDate\<close> recovers year, month and
  day, and reads hours, minutes and seconds off \<open>f\<close>.
\<close>

lemma julian_round_trip_day:
  assumes valid: "validInstant i" and greg: "sinceGregorianReform i"
    and f: "0 \<le> f" "f < 1"
    and h: "h = real_of_int (utcHours i) + real_of_int (utcMinutes i) / 60 +
              real_of_int (utcSeconds i) / 3600 + real_of_int (utcMilliseconds i) / 3600000"
  shows "julianToDate (dateToJulian i - h / 24 + f) =
           Date_UTC (utcFullYear i) (utcMonth i) (utcDate i) \<lfloor>f * 24\<rfloor>
             \<lfloor>(f * 24 - real_of_int \<lfloor>f * 24\<rfloor>) * 60\<rfloor>
             \<lfloor>((f * 24 - real_of_int \<lfloor>f * 24\<rfloor>) * 60
                - real_of_int \<lfloor>(f * 24 - real_of_int \<lfloor>f * 24\<rfloor>) * 60\<rfloor>) * 60\<rfloor> 0"
proof -
  define y where "y = utcFullYear i"
  define m0 where "m0 = utcMonth i"
  define dd where "dd = utcDate i"
  define jy where "jy = (if m0 + 1 \<le> 2 then y - 1 else y)"
  define jm where "jm = (if m0 + 1 \<le> 2 then m0 + 1 + 12 else m0 + 1)"
  define Y where "Y = (306001 * (jm + 1)) div 10000"
  define X where "X = (1461 * (jy + 4716)) div 4"
  define a where "a = jy div 100"
  define N where "N = X + Y + dd + (2 - a + a div 4) - 1524"
  have m0: "0 \<le> m0" "m0 \<le> 11" and dd: "1 \<le> dd" "dd \<le> DaysInMonth y m0"
    using valid unfolding validInstant_def m0_def dd_def y_def by simp_all
  have jm: "3 \<le> jm" "jm \<le> 14" unfolding jm_def using m0 by auto
  have dmax: "dd \<le> (if jm = 14 then 29 else if jm = 4 \<or> jm = 6 \<or> jm = 9 \<or> jm = 11 then 30 else 31)"
    using dd(2) m0 unfolding jm_def DaysInMonth_def by (auto split: if_splits)
  have leap: "InLeapYear (jy + 1)" if "jm = 14" "dd = 29"
  proof -
    have "m0 = 1" using that(1) m0 unfolding jm_def by (auto split: if_splits)
    then have "jy + 1 = y" unfolding jy_def by simp
    moreover have "InLeapYear y"
      using dd(2) that(2) \<open>m0 = 1\<close> unfolding DaysInMonth_def by (auto split: if_splits)
    ultimately show ?thesis by simp
  qed
  note mc = month_core [OF jm dd(1) dmax, folded Y_def]
  have e_val: "(10000 * (Y + dd)) div 306001 = jm + 1" and w: "123 \<le> Y + dd" "Y + dd \<le> 488"
    using mc by simp_all
  have w488: "jm = 14 \<and> dd = 29" if "Y + dd = 488" using mc that by simp
  have leap100: "(jy + 1) mod 400 = 0" if "Y + dd = 488" "(jy + 1) mod 100 = 0"
    using leap w488 [OF that(1)] that(2) unfolding InLeapYear_def by simp
  have leap4: "(jy + 1) mod 4 = 0" if "Y + dd = 488"
    using leap w488 [OF that] unfolding InLeapYear_def by simp
  have alpha: "(4 * N - 7468865) div 146097 = a - 4"
    using century_core [OF w leap100] unfolding N_def X_def a_def by (simp add: add.assoc)
  have b: "N + 1 + (a - 4) - (a - 4) div 4 + 1524 = X + (Y + dd)"
    unfolding N_def quarter_shift by simp
  have c: "(20 * (X + (Y + dd)) - 2442) div 7305 = jy + 4716"
    using year_core [OF w leap4] unfolding X_def by simp
  have reform: "2299161 \<le> N"
  proof -
    have "(1583 \<le> jy \<and> 123 \<le> Y + dd) \<or> (jy = 1582 \<and> 351 \<le> Y + dd)"
    proof (cases "1583 \<le> jy")
      case True
      then show ?thesis using w by simp
    next
      case False
      have y: "y > 1582 \<or> (y = 1582 \<and> (m0 > 9 \<or> (m0 = 9 \<and> dd \<ge> 15)))"
        using greg unfolding sinceGregorianReform_def y_def m0_def dd_def .
      have jy1582: "jy = 1582" and late: "10 \<le> jm" and oct: "jm = 10 \<Longrightarrow> 15 \<le> dd"
        using False y m0 unfolding jy_def jm_def by (auto split: if_splits)
      have "351 \<le> Y + dd"
      proof (cases "jm = 10")
        case True
        then show ?thesis using month_floor_late(1) [OF late jm(2)] oct unfolding Y_def by linarith
      next
        case False
        then have "11 \<le> jm" using late by linarith
        then show ?thesis using month_floor_late(2) [OF late jm(2)] dd(1) unfolding Y_def by linarith
      qed
      then show ?thesis using jy1582 by simp
    qed
    from reform_bound [OF this] show ?thesis
      unfolding N_def X_def a_def by (simp add: add.assoc)
  qed
  have jd: "dateToJulian i = real_of_int N - 0.5 + h / 24"
    by (rule dateToJulian_split [where jy = jy and jm = jm])
      (simp_all add: jy_def jm_def N_def X_def Y_def a_def h y_def m0_def dd_def)
  have jd': "dateToJulian i - h / 24 + f = real_of_int N - 0.5 + f" unfolding jd by simp
  have month: "(if jm + 1 < 14 then jm + 1 - 1 else jm + 1 - 13) = m0 + 1"
    unfolding jm_def using m0 by auto
  have yr: "(if m0 + 1 > 2 then jy + 4716 - 4716 else jy + 4716 - 4715) = y"
    unfolding jy_def by auto
  have "julianToDate (real_of_int N - 0.5 + f) =
          Date_UTC y (m0 + 1 - 1) dd \<lfloor>f * 24\<rfloor>
            \<lfloor>(f * 24 - real_of_int \<lfloor>f * 24\<rfloor>) * 60\<rfloor>
            \<lfloor>((f * 24 - real_of_int \<lfloor>f * 24\<rfloor>) * 60
               - real_of_int \<lfloor>(f * 24 - real_of_int \<lfloor>f * 24\<rfloor>) * 60\<rfloor>) * 60\<rfloor> 0"
  proof (rule julianToDate_steps [OF f reform, where alpha = "a - 4" and b = "X + (Y + dd)"
        and c = "jy + 4716" and d = X and e = "jm + 1" and month = "m0 + 1"])
    show "a - 4 = (4 * N - 7468865) div 146097" using alpha by simp
    show "X + (Y + dd) = N + 1 + (a - 4) - (a - 4) div 4 + 1524" using b by simp
    show "jy + 4716 = (20 * (X + (Y + dd)) - 2442) div 7305" using c by simp
    show "X = (1461 * (jy + 4716)) div 4" unfolding X_def by simp
    show "jm + 1 = (10000 * (X + (Y + dd) - X)) div 306001" using e_val by simp
    show "m0 + 1 = (if jm + 1 < 14 then jm + 1 - 1 else jm + 1 - 13)" using month by simp
    show "y = (if m0 + 1 > 2 then jy + 4716 - 4716 else jy + 4716 - 4715)" using yr by simp
    show "dd = X + (Y + dd) - X - (306001 * (jm + 1)) div 10000" unfolding Y_def by simp
  qed simp_all
  then show ?thesis
    unfolding jd' y_def m0_def dd_def by simp
qed

lemma seconds_decode:
  fixes S :: int and \<theta> f :: real
  assumes S: "0 \<le> S" "S \<le> 86399" and \<theta>: "0 \<le> \<theta>" "\<theta> < 1"
    and f: "f = (real_of_int S + \<theta>) / 86400"
  shows "0 \<le> f" and "f < 1"
    and "MakeTime \<lfloor>f * 24\<rfloor>
           \<lfloor>(f * 24 - real_of_int \<lfloor>f * 24\<rfloor>) * 60\<rfloor>
           \<lfloor>((f * 24 - real_of_int \<lfloor>f * 24\<rfloor>) * 60
              - real_of_int \<lfloor>(f * 24 - real_of_int \<lfloor>f * 24\<rfloor>) * 60\<rfloor>) * 60\<rfloor> 0 = 1000 * S"
proof -
  define q1 where "q1 = S div 3600"
  define r1 where "r1 = S mod 3600"
  define q2 where "q2 = r1 div 60"
  define r2 where "r2 = r1 mod 60"
  have S1: "S = 3600 * q1 + r1" unfolding q1_def r1_def by simp
  have r1: "0 \<le> r1" "r1 \<le> 3599" unfolding r1_def by simp_all
  have R1: "r1 = 60 * q2 + r2" unfolding q2_def r2_def by simp
  have r2: "0 \<le> r2" "r2 \<le> 59" unfolding r2_def by simp_all
  have rS: "0 \<le> real_of_int S" "real_of_int S \<le> 86399" using S by simp_all
  show "0 \<le> f" unfolding f using rS \<theta> by simp
  show "f < 1" unfolding f using rS \<theta> by simp
  have rr1: "0 \<le> real_of_int r1" "real_of_int r1 \<le> 3599" using r1 by simp_all
  have rr2: "0 \<le> real_of_int r2" "real_of_int r2 \<le> 59" using r2 by simp_all
  have hrs: "f * 24 = real_of_int q1 + (real_of_int r1 + \<theta>) / 3600"
    unfolding f S1 by simp
  have fl1: "\<lfloor>f * 24\<rfloor> = q1"
    unfolding hrs using rr1 \<theta> by (intro floor_unique) simp_all
  have mins: "(f * 24 - real_of_int q1) * 60 = real_of_int q2 + (real_of_int r2 + \<theta>) / 60"
    unfolding hrs R1 by simp
  have fl2: "\<lfloor>(f * 24 - real_of_int q1) * 60\<rfloor> = q2"
    unfolding mins using rr2 \<theta> by (intro floor_unique) simp_all
  have secs: "((f * 24 - real_of_int q1) * 60 - real_of_int q2) * 60 = real_of_int r2 + \<theta>"
    unfolding mins by simp
  have fl3: "\<lfloor>((f * 24 - real_of_int q1) * 60 - real_of_int q2) * 60\<rfloor> = r2"
    unfolding secs using \<theta> by (intro floor_unique) simp_all
  show "MakeTime \<lfloor>f * 24\<rfloor>
           \<lfloor>(f * 24 - real_of_int \<lfloor>f * 24\<rfloor>) * 60\<rfloor>
           \<lfloor>((f * 24 - real_of_int \<lfloor>f * 24\<rfloor>) * 60
              - real_of_int \<lfloor>(f * 24 - real_of_int \<lfloor>f * 24\<rfloor>) * 60\<rfloor>) * 60\<rfloor> 0 = 1000 * S"
    unfolding fl1 fl2 fl3 MakeTime_def using S1 R1 by simp
qed


lemma Date_UTC_seconds:
  assumes "99 < y" and "MakeTime a b c 0 = 1000 * S"
  shows "Date_UTC y m d a b c 0 = MakeDay y m d * 86400000 + 1000 * S"
  using assms by (simp add: Date_UTC_def MakeDate_def)

lemma getTime_seconds:
  "getTime i = MakeDay (utcFullYear i) (utcMonth i) (utcDate i) * 86400000
     + 1000 * (3600 * utcHours i + 60 * utcMinutes i + utcSeconds i) + utcMilliseconds i"
  by (simp add: getTime_def MakeDate_def MakeTime_def)

text \<open>
  C4, amended. For every valid civil instant \<open>I\<close> on or after 1582-10-15 (a UTC
  timestamp with year, month, day, hour, minute, second and millisecond fields),
  \<open>julianToDate (dateToJulian I)\<close> is not later than \<open>I\<close> and at most 1 second earlier.
  Here \<open>\<delta>\<close> is the rounding of the Julian Date to a double, in days: at most \<open>10\<^sup>-\<^sup>8\<close>,
  and 0 at a midnight, where the Julian Date is a multiple of one half. The result is
  \<open>I\<close> with its milliseconds dropped, unless \<open>I\<close> is a whole second and the rounding is
  downward: then it is one second before \<open>I\<close>.
\<close>

theorem julian_round_trip_gregorian:
  assumes valid: "validInstant i" and greg: "sinceGregorianReform i"
    and delta: "\<bar>\<delta>\<bar> \<le> 1 / 10 ^ 8"
    and midnight: "utcHours i = 0 \<and> utcMinutes i = 0 \<and> utcSeconds i = 0 \<and> utcMilliseconds i = 0
                    \<longrightarrow> \<delta> = 0"
  shows "julianToDate (dateToJulian i + \<delta>)
           = (if 0 \<le> real_of_int (utcMilliseconds i) / 1000 + 86400 * \<delta>
              then getTime (i\<lparr>utcMilliseconds := 0\<rparr>) else getTime i - 1000)
         \<and> 0 \<le> getTime i - julianToDate (dateToJulian i + \<delta>)
         \<and> getTime i - julianToDate (dateToJulian i + \<delta>) \<le> 1000"
proof -
  define hh where "hh = utcHours i"
  define mi where "mi = utcMinutes i"
  define ss where "ss = utcSeconds i"
  define ms where "ms = utcMilliseconds i"
  define S0 where "S0 = 3600 * hh + 60 * mi + ss"
  define h where "h = real_of_int hh + real_of_int mi / 60 + real_of_int ss / 3600
                      + real_of_int ms / 3600000"
  define \<tau> where "\<tau> = real_of_int ms / 1000 + 86400 * \<delta>"
  define D where "D = MakeDay (utcFullYear i) (utcMonth i) (utcDate i)"
  have fields: "0 \<le> hh" "hh \<le> 23" "0 \<le> mi" "mi \<le> 59" "0 \<le> ss" "ss \<le> 59" "0 \<le> ms" "ms \<le> 999"
    using valid unfolding validInstant_def hh_def mi_def ss_def ms_def by simp_all
  have S0: "0 \<le> S0" "S0 \<le> 86399" unfolding S0_def using fields by linarith+
  have y: "99 < utcFullYear i" using greg unfolding sinceGregorianReform_def by auto
  have d: "- (1 / 10 ^ 8) \<le> \<delta>" "\<delta> \<le> 1 / 10 ^ 8" using delta by (simp_all add: abs_le_iff) 
  have h24: "h / 24 = (real_of_int S0 + real_of_int ms / 1000) / 86400"
    unfolding h_def S0_def by simp
  have arg: "dateToJulian i + \<delta> = dateToJulian i - h / 24 + (real_of_int S0 + \<tau>) / 86400"
    unfolding h24 \<tau>_def by (simp add: field_simps)
  have gt: "getTime i = D * 86400000 + 1000 * S0 + ms"
    unfolding D_def S0_def hh_def mi_def ss_def ms_def by (rule getTime_seconds)
  have gt0: "getTime (i\<lparr>utcMilliseconds := 0\<rparr>) = D * 86400000 + 1000 * S0"
    unfolding D_def S0_def hh_def mi_def ss_def using getTime_seconds [of "i\<lparr>utcMilliseconds := 0\<rparr>"]
    by simp
  have hdef: "h = real_of_int (utcHours i) + real_of_int (utcMinutes i) / 60 +
              real_of_int (utcSeconds i) / 3600 + real_of_int (utcMilliseconds i) / 3600000"
    unfolding h_def hh_def mi_def ss_def ms_def ..
  have decode: "julianToDate (dateToJulian i + \<delta>) = D * 86400000 + 1000 * S"
    if S: "0 \<le> S" "S \<le> 86399" and th: "0 \<le> \<theta>" "\<theta> < 1"
      and eq: "real_of_int S0 + \<tau> = real_of_int S + \<theta>" for S \<theta>
  proof -
    define f where "f = (real_of_int S + \<theta>) / 86400"
    note sd = seconds_decode [OF S th f_def]
    have "julianToDate (dateToJulian i - h / 24 + f) =
           Date_UTC (utcFullYear i) (utcMonth i) (utcDate i) \<lfloor>f * 24\<rfloor>
             \<lfloor>(f * 24 - real_of_int \<lfloor>f * 24\<rfloor>) * 60\<rfloor>
             \<lfloor>((f * 24 - real_of_int \<lfloor>f * 24\<rfloor>) * 60
                - real_of_int \<lfloor>(f * 24 - real_of_int \<lfloor>f * 24\<rfloor>) * 60\<rfloor>) * 60\<rfloor> 0"
      by (rule julian_round_trip_day [OF valid greg sd(1,2) hdef])
    also have "\<dots> = D * 86400000 + 1000 * S"
      unfolding D_def by (rule Date_UTC_seconds [OF y sd(3)])
    finally show ?thesis unfolding arg eq f_def .
  qed
  show ?thesis
  proof (cases "0 \<le> \<tau>")
    case True
    have "\<tau> < 1"
    proof -
      have "real_of_int ms \<le> 999" using fields by simp
      then show ?thesis unfolding \<tau>_def using d(2) by simp
    qed
    then have "julianToDate (dateToJulian i + \<delta>) = D * 86400000 + 1000 * S0"
      using decode [OF S0 True] by simp
    then show ?thesis using gt gt0 fields True unfolding \<tau>_def ms_def by simp
  next
    case False
    have ms0: "ms = 0"
    proof (rule ccontr)
      assume "ms \<noteq> 0"
      then have "1 \<le> real_of_int ms" using fields by simp
      then have "0 \<le> \<tau>" unfolding \<tau>_def using d(1) by simp
      then show False using False by simp
    qed
    have neg: "\<delta> < 0" using False ms0 unfolding \<tau>_def by simp
    have "S0 \<noteq> 0"
    proof
      assume "S0 = 0"
      then have "hh = 0 \<and> mi = 0 \<and> ss = 0" unfolding S0_def using fields by linarith
      then have "\<delta> = 0" using midnight ms0 unfolding hh_def mi_def ss_def ms_def by simp
      then show False using neg by simp
    qed
    then have S1: "0 \<le> S0 - 1" "S0 - 1 \<le> 86399" using S0 by linarith+
    have th: "0 \<le> 1 + \<tau>" "1 + \<tau> < 1" unfolding \<tau>_def ms0 using d(1) neg by simp_all
    have "julianToDate (dateToJulian i + \<delta>) = D * 86400000 + 1000 * (S0 - 1)"
      by (rule decode [OF S1 th]) simp
    then show ?thesis using gt ms0 False unfolding \<tau>_def ms_def by simp
  qed
qed

lemma secondInstant_facts:
  "validInstant secondInstant" "sinceGregorianReform secondInstant"
  "getTime secondInstant = 946684801000" "utcMilliseconds secondInstant = 0"
  "utcSeconds secondInstant = 1"
  by (simp_all add: validInstant_def sinceGregorianReform_def secondInstant_def DaysInMonth_def
      InLeapYear_def getTime_def MakeDate_def MakeDay_def MakeTime_def DayFromYear_def
      DayWithinYear_def upto.simps)

theorem julian_round_trip_gregorian_witness:
  "validInstant secondInstant \<and> sinceGregorianReform secondInstant
   \<and> julianToDate (dateToJulian secondInstant + - (1 / 10 ^ 10)) = 946684800000
   \<and> getTime secondInstant - julianToDate (dateToJulian secondInstant + - (1 / 10 ^ 10)) = 1000"
  using julian_round_trip_gregorian [of secondInstant "- (1 / 10 ^ 10)"] secondInstant_facts
  by simp


subsection \<open>Twilight recursion\<close>

lemma toRadians_toDegrees: "toRadians (toDegrees x) = x"
  by (simp add: toRadians_def toDegrees_def DEG_TO_RAD_def RAD_TO_DEG_def)

lemma sun_dec_form:
  "\<exists>x. \<bar>x\<bar> \<le> 1 \<and> sun_dec (approximateSunPosition date) =
         toDegrees (arcsin (sin (toRadians (meanObliquity (dateToJulian date))) * x))"
proof -
  obtain lam where "sun_dec (approximateSunPosition date) =
         toDegrees (arcsin (sin (toRadians (meanObliquity (dateToJulian date))) * sin lam))"
    unfolding approximateSunPosition_def Let_def by simp
  moreover have "\<bar>sin lam\<bar> \<le> 1" by simp
  ultimately show ?thesis by blast
qed

lemma sin18_eq_cos72: "sin (toRadians 18) = cos (toRadians 72)"
proof -
  have "toRadians 72 = pi / 2 - toRadians 18" by (simp add: toRadians_def DEG_TO_RAD_def)
  then show ?thesis by (simp add: cos_diff)
qed

lemma toRadians_72_bounds: "0 < toRadians 72" "toRadians 72 < pi / 2"
  by (simp_all add: toRadians_def DEG_TO_RAD_def)

lemma cos_dec_lower:
  assumes e0: "0 \<le> e" and e72: "e \<le> toRadians 72" and x: "\<bar>x\<bar> \<le> 1"
  shows "sin (toRadians 18) \<le> cos (arcsin (sin e * x))"
proof -
  have epi: "e \<le> pi / 2" "e \<le> pi" using e72 toRadians_72_bounds(2) pi_gt_zero by linarith+
  have sin_nonneg: "0 \<le> sin e" using e0 epi(2) by (rule sin_ge_zero)
  have sin_le1: "sin e \<le> 1" by simp
  have cos_nonneg: "0 \<le> cos e" using e0 epi(1) by (intro cos_ge_zero) linarith+
  have abs_prod: "\<bar>sin e * x\<bar> \<le> sin e"
  proof -
    have "\<bar>sin e * x\<bar> = sin e * \<bar>x\<bar>" using sin_nonneg by (simp add: abs_mult)
    also have "\<dots> \<le> sin e * 1" using x sin_nonneg by (intro mult_left_mono) simp_all
    finally show ?thesis by simp
  qed
  then have range: "-1 \<le> sin e * x" "sin e * x \<le> 1" using sin_le1 by linarith+
  have sq: "(sin e * x)\<^sup>2 \<le> (sin e)\<^sup>2"
    using abs_prod sin_nonneg by (metis abs_le_square_iff abs_of_nonneg)
  have "cos e = sqrt (1 - (sin e)\<^sup>2)"
  proof -
    have "(cos e)\<^sup>2 = 1 - (sin e)\<^sup>2" using sin_cos_squared_add [of e] by linarith
    then show ?thesis using cos_nonneg by (metis real_sqrt_abs abs_of_nonneg)
  qed
  also have "\<dots> \<le> sqrt (1 - (sin e * x)\<^sup>2)" using sq by simp
  also have "\<dots> = cos (arcsin (sin e * x))" using range by (simp add: cos_arcsin)
  finally have "cos e \<le> cos (arcsin (sin e * x))" .
  moreover have "cos (toRadians 72) \<le> cos e"
    using e0 e72 toRadians_72_bounds pi_gt_zero by (intro cos_monotone_0_pi_le) linarith+
  ultimately show ?thesis using sin18_eq_cos72 by linarith
qed

lemma sin18_pos: "0 < sin (toRadians 18)"
proof -
  have "0 < toRadians 18" "toRadians 18 < pi" by (simp_all add: toRadians_def DEG_TO_RAD_def)
  then show ?thesis by (rule sin_gt_zero)
qed

lemma calculateSunRiseSet_equator:
  assumes e0: "0 \<le> toRadians (meanObliquity (dateToJulian date))"
    and e72: "toRadians (meanObliquity (dateToJulian date)) \<le> toRadians 72"
  shows "\<exists>a b. calculateSunRiseSet (sun_dec (approximateSunPosition date)) 0 lon date
                  TWILIGHT_ASTRONOMICAL =
           \<lparr>sr_rise = Some (Date a), sr_set = Some (Date b), polarDay = False, polarNight = False\<rparr>"
proof -
  obtain x where x: "\<bar>x\<bar> \<le> 1" and
    dec: "sun_dec (approximateSunPosition date) =
         toDegrees (arcsin (sin (toRadians (meanObliquity (dateToJulian date))) * x))"
    using sun_dec_form by blast
  define cd where "cd = cos (arcsin (sin (toRadians (meanObliquity (dateToJulian date))) * x))"
  have cd: "sin (toRadians 18) \<le> cd" unfolding cd_def by (rule cos_dec_lower [OF e0 e72 x])
  then have cd_pos: "0 < cd" using sin18_pos by linarith
  have h0: "sin (toRadians TWILIGHT_ASTRONOMICAL) = - sin (toRadians 18)"
    by (simp add: TWILIGHT_ASTRONOMICAL_def toRadians_def)
  define c where "c = - sin (toRadians 18) / cd"
  have c_le: "c \<le> 1" unfolding c_def using cd_pos sin18_pos
    by (simp add: field_simps) 
  have c_ge: "-1 \<le> c" unfolding c_def using cd_pos cd by (simp add: field_simps)
  have cosH: "js_div (sin (toRadians TWILIGHT_ASTRONOMICAL)
                 - sin (toRadians 0) * sin (toRadians (sun_dec (approximateSunPosition date))))
               (cos (toRadians 0) * cos (toRadians (sun_dec (approximateSunPosition date)))) = Fin c"
    using cd_pos by (simp add: dec toRadians_toDegrees toRadians_0 h0 js_div_def c_def cd_def)
  show ?thesis
    unfolding calculateSunRiseSet_def Let_def cosH
    using c_le c_ge by (simp add: newDate_def)
qed

lemma twilightEvents_equator:
  assumes e0: "0 \<le> toRadians (meanObliquity (dateToJulian date))"
    and e72: "toRadians (meanObliquity (dateToJulian date)) \<le> toRadians 72"
  shows "\<exists>dusk dawn. astronomicalDusk (twilightEvents 0 lon date) = Some dusk
                  \<and> astronomicalDawn (twilightEvents 0 lon date) = Some dawn"
proof -
  obtain a b where "calculateSunRiseSet (sun_dec (approximateSunPosition date)) 0 lon date
                  TWILIGHT_ASTRONOMICAL =
           \<lparr>sr_rise = Some (Date a), sr_set = Some (Date b), polarDay = False, polarNight = False\<rparr>"
    using calculateSunRiseSet_equator [OF e0 e72] by blast
  then show ?thesis by (simp add: twilightEvents_def Let_def)
qed

lemma calculateTwilightTimes_equator_step:
  assumes e0: "0 \<le> toRadians (meanObliquity (dateToJulian date))"
    and e72: "toRadians (meanObliquity (dateToJulian date)) \<le> toRadians 72"
    and deeper: "calculateTwilightTimes n 0 lon (addOneDay date) = None"
  shows "calculateTwilightTimes (Suc n) 0 lon date = None"
proof -
  obtain dusk dawn where "astronomicalDusk (twilightEvents 0 lon date) = Some dusk"
    "astronomicalDawn (twilightEvents 0 lon date) = Some dawn"
    using twilightEvents_equator [OF e0 e72] by blast
  then show ?thesis using deeper by (simp add: Let_def)
qed

lemma toRadians_mono: "x \<le> y \<Longrightarrow> toRadians x \<le> toRadians y"
  by (simp add: toRadians_def DEG_TO_RAD_def)

lemma toRadians_nonneg: "0 \<le> x \<Longrightarrow> 0 \<le> toRadians x"
  by (simp add: toRadians_def DEG_TO_RAD_def)

lemma addOneDay_valid:
  assumes "validInstant d"
  shows "validInstant (addOneDay d)"
    and "utcFullYear d \<le> utcFullYear (addOneDay d)"
    and "utcFullYear (addOneDay d) \<le> utcFullYear d + 1"
proof -
  have dim: "1 \<le> DaysInMonth y m" for y m unfolding DaysInMonth_def by simp
  show "validInstant (addOneDay d)"
    using assms dim unfolding validInstant_def addOneDay_def by auto
  show "utcFullYear d \<le> utcFullYear (addOneDay d)" unfolding addOneDay_def by simp
  show "utcFullYear (addOneDay d) \<le> utcFullYear d + 1" unfolding addOneDay_def by simp
qed

lemma julian_day_bounds:
  fixes jy w :: int
  assumes jy: "1899 \<le> jy" "jy \<le> 12000" and w: "123 \<le> w" "w \<le> 490"
  shows "2414700 \<le> (1461 * (jy + 4716)) div 4 + w + (2 - jy div 100 + jy div 100 div 4) - 1524"
    and "(1461 * (jy + 4716)) div 4 + w + (2 - jy div 100 + jy div 100 div 4) - 1524 \<le> 6105000"
proof -
  define q4 where "q4 = (jy + 4716) div 4"
  define a where "a = jy div 100"
  define a4 where "a4 = a div 4"
  have q4: "4 * q4 \<le> jy + 4716" "jy + 4716 \<le> 4 * q4 + 3" unfolding q4_def by (rule split4)+
  have a: "100 * a \<le> jy" "jy \<le> 100 * a + 99" unfolding a_def using split100 [of jy] by linarith+
  have a4: "4 * a4 \<le> a" "a \<le> 4 * a4 + 3" unfolding a4_def by (rule split4)+
  have X: "(1461 * (jy + 4716)) div 4 = 365 * jy + 1721340 + q4"
    unfolding q4_def quarter_days by simp
  have "2414700 \<le> 365 * jy + 1721340 + q4 + w + (2 - a + a4) - 1524"
    using jy w q4 a a4 by linarith
  then show "2414700 \<le> (1461 * (jy + 4716)) div 4 + w + (2 - jy div 100 + jy div 100 div 4) - 1524"
    unfolding X a_def a4_def .
  have "365 * jy + 1721340 + q4 + w + (2 - a + a4) - 1524 \<le> 6105000"
    using jy w q4 a a4 by linarith
  then show "(1461 * (jy + 4716)) div 4 + w + (2 - jy div 100 + jy div 100 div 4) - 1524 \<le> 6105000"
    unfolding X a_def a4_def .
qed

lemma obliquity_bounds:
  fixes t :: real
  assumes t: "-2 \<le> t" "t \<le> 101"
  shows "0 \<le> OBLIQUITY_J2000 + (OBLIQUITY_RATE * t + -0.00059 * t * t + 0.001813 * t * t * t) / 3600"
    and "OBLIQUITY_J2000 + (OBLIQUITY_RATE * t + -0.00059 * t * t + 0.001813 * t * t * t) / 3600 \<le> 72"
proof -
  have abs: "\<bar>t\<bar> \<le> 101" using t by (simp add: abs_le_iff)
  have "t * t = \<bar>t\<bar> * \<bar>t\<bar>" by simp
  also have "\<dots> \<le> 101 * 101" using abs by (intro mult_mono) simp_all
  finally have sq: "t * t \<le> 10201" by simp
  have sq0: "0 \<le> t * t" by simp
  have cube_hi: "t * t * t \<le> 1030301"
  proof (cases "0 \<le> t")
    case True
    have "t * t * t \<le> 10201 * 101" using sq sq0 t True by (intro mult_mono) simp_all
    then show ?thesis by simp
  next
    case False
    then have "t * t * t \<le> 0" using sq0 by (simp add: mult_nonneg_nonpos)
    then show ?thesis by simp
  qed
  have cube_lo: "- 8 \<le> t * t * t"
  proof (cases "0 \<le> t")
    case True
    then have "0 \<le> t * t * t" using sq0 by simp
    then show ?thesis by simp
  next
    case False
    then have neg: "t \<le> 0" "- t \<le> 2" using t by simp_all
    have "(- t) * (- t) \<le> 2 * 2" using neg by (intro mult_mono) simp_all
    then have "t * t \<le> 4" by simp
    then have "(t * t) * (- t) \<le> 4 * 2" using neg sq0 by (intro mult_mono) simp_all
    then show ?thesis by simp
  qed
  define s where "s = t * t"
  define c where "c = t * t * t"
  have expr: "OBLIQUITY_J2000 + (OBLIQUITY_RATE * t + -0.00059 * t * t + 0.001813 * t * t * t) / 3600
      = 23.439291111 + (-46.8150 * t - 0.00059 * s + 0.001813 * c) / 3600"
    unfolding OBLIQUITY_J2000_def OBLIQUITY_RATE_def s_def c_def by (simp add: algebra_simps)
  have s_b: "0 \<le> s" "s \<le> 10201" unfolding s_def using sq sq0 by simp_all
  have c_b: "- 8 \<le> c" "c \<le> 1030301" unfolding c_def using cube_lo cube_hi by simp_all
  have lin: "0 \<le> 23.439291111 + (-46.8150 * t - 0.00059 * s + 0.001813 * c) / 3600"
    "23.439291111 + (-46.8150 * t - 0.00059 * s + 0.001813 * c) / 3600 \<le> 72"
    using t s_b c_b by (simp_all add: field_simps)
  show "0 \<le> OBLIQUITY_J2000 + (OBLIQUITY_RATE * t + -0.00059 * t * t + 0.001813 * t * t * t) / 3600"
    unfolding expr by (rule lin)
  show "OBLIQUITY_J2000 + (OBLIQUITY_RATE * t + -0.00059 * t * t + 0.001813 * t * t * t) / 3600 \<le> 72"
    unfolding expr by (rule lin)
qed

lemma meanObliquity_bounds:
  assumes valid: "validInstant d" and yr: "1900 \<le> utcFullYear d" "utcFullYear d \<le> 12000"
  shows "0 \<le> meanObliquity (dateToJulian d)" and "meanObliquity (dateToJulian d) \<le> 72"
proof -
  define jy where "jy = (if utcMonth d + 1 \<le> 2 then utcFullYear d - 1 else utcFullYear d)"
  define jm where "jm = (if utcMonth d + 1 \<le> 2 then utcMonth d + 1 + 12 else utcMonth d + 1)"
  define w where "w = (306001 * (jm + 1)) div 10000 + utcDate d"
  define N where "N = (1461 * (jy + 4716)) div 4 + w + (2 - jy div 100 + jy div 100 div 4) - 1524"
  define h where "h = real_of_int (utcHours d) + real_of_int (utcMinutes d) / 60 +
              real_of_int (utcSeconds d) / 3600 + real_of_int (utcMilliseconds d) / 3600000"
  have m0: "0 \<le> utcMonth d" "utcMonth d \<le> 11"
    and dd: "1 \<le> utcDate d" "utcDate d \<le> DaysInMonth (utcFullYear d) (utcMonth d)"
    and tm: "0 \<le> utcHours d" "utcHours d \<le> 23" "0 \<le> utcMinutes d" "utcMinutes d \<le> 59"
      "0 \<le> utcSeconds d" "utcSeconds d \<le> 59" "0 \<le> utcMilliseconds d"
      "utcMilliseconds d \<le> 999"
    using valid unfolding validInstant_def by simp_all
  have jm: "3 \<le> jm" "jm \<le> 14" unfolding jm_def using m0 by auto
  have jy: "1899 \<le> jy" "jy \<le> 12000" unfolding jy_def using yr by auto
  have dmax: "utcDate d \<le> (if jm = 14 then 29 else if jm = 4 \<or> jm = 6 \<or> jm = 9 \<or> jm = 11
                            then 30 else 31)"
    using dd(2) m0 unfolding jm_def DaysInMonth_def by (auto split: if_splits)
  have w: "123 \<le> w" "w \<le> 490"
    using month_core [OF jm dd(1) dmax] unfolding w_def by simp_all
  have N: "2414700 \<le> N" "N \<le> 6105000"
    using julian_day_bounds [OF jy w] unfolding N_def by simp_all
  have h: "0 \<le> h" "h \<le> 24"
  proof -
    have r: "0 \<le> real_of_int (utcHours d)" "real_of_int (utcHours d) \<le> 23"
      "0 \<le> real_of_int (utcMinutes d)" "real_of_int (utcMinutes d) \<le> 59"
      "0 \<le> real_of_int (utcSeconds d)" "real_of_int (utcSeconds d) \<le> 59"
      "0 \<le> real_of_int (utcMilliseconds d)" "real_of_int (utcMilliseconds d) \<le> 999"
      using tm by simp_all
    show "0 \<le> h" unfolding h_def using r by simp
    show "h \<le> 24" unfolding h_def using r by (simp add: field_simps)
  qed
  have jd: "dateToJulian d = real_of_int N - 0.5 + h / 24"
    by (rule dateToJulian_split [OF jy_def jm_def _ h_def]) (simp add: N_def w_def)
  define t where "t = julianCenturies (dateToJulian d)"
  have rN: "2414700 \<le> real_of_int N" "real_of_int N \<le> 6105000" using N by simp_all
  have t: "- 2 \<le> t" "t \<le> 101"
    unfolding t_def julianCenturies_def jd J2000_def JULIAN_CENTURY_def
    using rN h by (simp_all add: field_simps)
  have mo: "meanObliquity (dateToJulian d) =
      OBLIQUITY_J2000 + (OBLIQUITY_RATE * t + -0.00059 * t * t + 0.001813 * t * t * t) / 3600"
    unfolding meanObliquity_def Let_def t_def by simp
  show "0 \<le> meanObliquity (dateToJulian d)" unfolding mo by (rule obliquity_bounds(1) [OF t])
  show "meanObliquity (dateToJulian d) \<le> 72" unfolding mo by (rule obliquity_bounds(2) [OF t])
qed

lemma calculateTwilightTimes_equator_none:
  "validInstant d \<Longrightarrow> 1900 \<le> utcFullYear d \<Longrightarrow> utcFullYear d + int n \<le> 12000
     \<Longrightarrow> calculateTwilightTimes n 0 lon d = None"
proof (induction n arbitrary: d)
  case 0
  show ?case by simp
next
  case (Suc n)
  have yr: "utcFullYear d \<le> 12000" using Suc.prems(3) by simp
  have e0: "0 \<le> toRadians (meanObliquity (dateToJulian d))"
    by (rule toRadians_nonneg) (rule meanObliquity_bounds(1) [OF Suc.prems(1,2) yr])
  have e72: "toRadians (meanObliquity (dateToJulian d)) \<le> toRadians 72"
    by (rule toRadians_mono) (rule meanObliquity_bounds(2) [OF Suc.prems(1,2) yr])
  have next_valid: "validInstant (addOneDay d)" by (rule addOneDay_valid(1) [OF Suc.prems(1)])
  have next_lo: "1900 \<le> utcFullYear (addOneDay d)"
    using addOneDay_valid(2) [OF Suc.prems(1)] Suc.prems(2) by linarith
  have next_hi: "utcFullYear (addOneDay d) + int n \<le> 12000"
    using addOneDay_valid(3) [OF Suc.prems(1)] Suc.prems(3) by simp
  have deeper: "calculateTwilightTimes n 0 lon (addOneDay d) = None"
    by (rule Suc.IH [OF next_valid next_lo next_hi])
  show ?case by (rule calculateTwilightTimes_equator_step [OF e0 e72 deeper])
qed

lemma exampleDate_valid: "validInstant exampleDate" "utcFullYear exampleDate = 2000"
  by (simp_all add: validInstant_def exampleDate_def DaysInMonth_def)

text \<open>
  C2 does not hold of the program. The claim: wherever today's astronomical dusk and
  dawn are defined, \<open>calculateTwilightTimes\<close> returns after one nested call, never more.
  At latitude 0, longitude 0 on 2000-01-01 both are defined, and a call depth of one
  nested call does not suffice: the nested call for 2000-01-02 finds its own dusk and
  dawn defined and calls again for 2000-01-03. Nor does a depth of 9999 nested calls
  suffice: every one of them finds its day's dusk and dawn defined and calls again.
\<close>

theorem calculateTwilightTimes_depth_exceeds_one:
  "(\<exists>dusk dawn. astronomicalDusk (twilightEvents 0 0 exampleDate) = Some dusk
               \<and> astronomicalDawn (twilightEvents 0 0 exampleDate) = Some dawn)
   \<and> calculateTwilightTimes 2 0 0 exampleDate = None
   \<and> calculateTwilightTimes 10000 0 0 exampleDate = None"
proof -
  have yr: "1900 \<le> utcFullYear exampleDate" "utcFullYear exampleDate \<le> 12000"
    by (simp_all add: exampleDate_valid)
  have e0: "0 \<le> toRadians (meanObliquity (dateToJulian exampleDate))"
    by (rule toRadians_nonneg) (rule meanObliquity_bounds(1) [OF exampleDate_valid(1) yr])
  have e72: "toRadians (meanObliquity (dateToJulian exampleDate)) \<le> toRadians 72"
    by (rule toRadians_mono) (rule meanObliquity_bounds(2) [OF exampleDate_valid(1) yr])
  have two: "calculateTwilightTimes 2 0 0 exampleDate = None"
    by (rule calculateTwilightTimes_equator_none) (simp_all add: exampleDate_valid)
  have many: "calculateTwilightTimes 10000 0 0 exampleDate = None"
    by (rule calculateTwilightTimes_equator_none) (simp_all add: exampleDate_valid)
  have "\<exists>dusk dawn. astronomicalDusk (twilightEvents 0 0 exampleDate) = Some dusk
               \<and> astronomicalDawn (twilightEvents 0 0 exampleDate) = Some dawn"
    by (rule twilightEvents_equator [OF e0 e72])
  then show ?thesis using two many by simp
qed


subsection \<open>Convergence of the Kepler loop\<close>

text \<open>
  In radians the loop is Newton's iteration for \<open>g x = x - e sin x - m\<close>, whose derivative
  \<open>1 - e cos x\<close> is at least \<open>1 / 10\<close> for \<open>e \<le> 9 / 10\<close>. For \<open>m\<close> in \<open>[0, pi]\<close> the root
  \<open>r\<close> is in \<open>[m, pi]\<close>, where \<open>g\<close> is convex. An iterate \<open>x\<close> in \<open>[r, pi]\<close> is followed by
  one in \<open>[r, x]\<close> whose distance to \<open>r\<close> is at most \<open>K (x - r)\<^sup>2\<close>, with \<open>K = 1.033\<close> everywhere
  and a smaller \<open>K\<close> when \<open>x\<close> is away from 0. The start \<open>m + e sin m\<close> is either in \<open>[r, pi]\<close>
  already, at distance at most \<open>9 / 10\<close>, or below \<open>r\<close>, and then the first pass lands in
  \<open>[r, pi]\<close> at distance at most \<open>6 / 5\<close>. Eight more passes bring the distance, and with it
  the correction, below \<open>10\<^sup>-\<^sup>6\<close> radians, less than \<open>0.0001\<close> degrees. Mean anomalies above
  180 degrees are the mirror image of those below.
\<close>

subsubsection \<open>Polynomial bounds and chords of sine and cosine\<close>

lemma cos_lower2: fixes x :: real assumes "0 \<le> x" shows "1 - x\<^sup>2 / 2 \<le> cos x"
proof -
  have "(\<lambda>t. cos t - 1 + t\<^sup>2 / 2) 0 \<le> (\<lambda>t. cos t - 1 + t\<^sup>2 / 2) x"
  proof (rule DERIV_nonneg_imp_nondecreasing [OF assms])
    fix t :: real assume "0 \<le> t" "t \<le> x"
    have "((\<lambda>t. cos t - 1 + t\<^sup>2 / 2) has_real_derivative (t - sin t)) (at t)"
      by (auto intro!: derivative_eq_intros)
    moreover have "0 \<le> t - sin t" using sin_x_le_x [OF \<open>0 \<le> t\<close>] by simp
    ultimately show "\<exists>y. ((\<lambda>t. cos t - 1 + t\<^sup>2 / 2) has_real_derivative y) (at t) \<and> 0 \<le> y"
      by blast
  qed
  then show ?thesis by simp
qed

lemma sin_lower3: fixes x :: real assumes "0 \<le> x" shows "x - x ^ 3 / 6 \<le> sin x"
proof -
  have "(\<lambda>t. sin t - t + t ^ 3 / 6) 0 \<le> (\<lambda>t. sin t - t + t ^ 3 / 6) x"
  proof (rule DERIV_nonneg_imp_nondecreasing [OF assms])
    fix t :: real assume "0 \<le> t" "t \<le> x"
    have "((\<lambda>t. sin t - t + t ^ 3 / 6) has_real_derivative (cos t - 1 + t\<^sup>2 / 2)) (at t)"
      by (auto intro!: derivative_eq_intros)
    moreover have "0 \<le> cos t - 1 + t\<^sup>2 / 2" using cos_lower2 [OF \<open>0 \<le> t\<close>] by simp
    ultimately show "\<exists>y. ((\<lambda>t. sin t - t + t ^ 3 / 6) has_real_derivative y) (at t) \<and> 0 \<le> y"
      by blast
  qed
  then show ?thesis by simp
qed

lemma cos_upper4: fixes x :: real assumes "0 \<le> x"
  shows "cos x \<le> 1 - x\<^sup>2 / 2 + x ^ 4 / 24"
proof -
  have "(\<lambda>t. 1 - t\<^sup>2 / 2 + t ^ 4 / 24 - cos t) 0 \<le> (\<lambda>t. 1 - t\<^sup>2 / 2 + t ^ 4 / 24 - cos t) x"
  proof (rule DERIV_nonneg_imp_nondecreasing [OF assms])
    fix t :: real assume "0 \<le> t" "t \<le> x"
    have "((\<lambda>t. 1 - t\<^sup>2 / 2 + t ^ 4 / 24 - cos t) has_real_derivative
            (sin t - t + t ^ 3 / 6)) (at t)"
      by (auto intro!: derivative_eq_intros)
    moreover have "0 \<le> sin t - t + t ^ 3 / 6" using sin_lower3 [OF \<open>0 \<le> t\<close>] by simp
    ultimately show "\<exists>y. ((\<lambda>t. 1 - t\<^sup>2 / 2 + t ^ 4 / 24 - cos t) has_real_derivative y) (at t)
        \<and> 0 \<le> y"
      by blast
  qed
  then show ?thesis by simp
qed

lemma sin_upper5: fixes x :: real assumes "0 \<le> x"
  shows "sin x \<le> x - x ^ 3 / 6 + x ^ 5 / 120"
proof -
  have "(\<lambda>t. t - t ^ 3 / 6 + t ^ 5 / 120 - sin t) 0 \<le> (\<lambda>t. t - t ^ 3 / 6 + t ^ 5 / 120 - sin t) x"
  proof (rule DERIV_nonneg_imp_nondecreasing [OF assms])
    fix t :: real assume "0 \<le> t" "t \<le> x"
    have "((\<lambda>t. t - t ^ 3 / 6 + t ^ 5 / 120 - sin t) has_real_derivative
            (1 - t\<^sup>2 / 2 + t ^ 4 / 24 - cos t)) (at t)"
      by (auto intro!: derivative_eq_intros)
    moreover have "0 \<le> 1 - t\<^sup>2 / 2 + t ^ 4 / 24 - cos t" using cos_upper4 [OF \<open>0 \<le> t\<close>] by simp
    ultimately show "\<exists>y. ((\<lambda>t. t - t ^ 3 / 6 + t ^ 5 / 120 - sin t) has_real_derivative y) (at t)
        \<and> 0 \<le> y"
      by blast
  qed
  then show ?thesis by simp
qed

lemma sin_diff_upper:
  fixes a b :: real
  assumes "0 \<le> a" "a \<le> b" "b \<le> pi"
  shows "sin b - sin a \<le> (b - a) * cos a"
proof -
  have "(\<lambda>t. sin a + (t - a) * cos a - sin t) a \<le> (\<lambda>t. sin a + (t - a) * cos a - sin t) b"
  proof (rule DERIV_nonneg_imp_nondecreasing [OF assms(2)])
    fix t :: real assume t: "a \<le> t" "t \<le> b"
    have "((\<lambda>t. sin a + (t - a) * cos a - sin t) has_real_derivative (cos a - cos t)) (at t)"
      by (auto intro!: derivative_eq_intros)
    moreover have "cos t \<le> cos a"
      using assms t by (intro cos_monotone_0_pi_le) linarith+
    ultimately show "\<exists>y. ((\<lambda>t. sin a + (t - a) * cos a - sin t) has_real_derivative y) (at t)
        \<and> 0 \<le> y"
      by (intro exI [of _ "cos a - cos t"]) simp
  qed
  then show ?thesis by simp
qed

lemma sin_diff_lower:
  fixes a b :: real
  assumes "0 \<le> a" "a \<le> b" "b \<le> pi"
  shows "(b - a) * cos b \<le> sin b - sin a"
proof -
  have "(\<lambda>t. sin b - sin t - (b - t) * cos b) b \<le> (\<lambda>t. sin b - sin t - (b - t) * cos b) a"
  proof (rule DERIV_nonpos_imp_nonincreasing [OF assms(2)])
    fix t :: real assume t: "a \<le> t" "t \<le> b"
    have "((\<lambda>t. sin b - sin t - (b - t) * cos b) has_real_derivative (cos b - cos t)) (at t)"
      by (auto intro!: derivative_eq_intros)
    moreover have "cos b \<le> cos t"
      using assms t by (intro cos_monotone_0_pi_le) linarith+
    ultimately show "\<exists>y. ((\<lambda>t. sin b - sin t - (b - t) * cos b) has_real_derivative y) (at t)
        \<and> y \<le> 0"
      by (intro exI [of _ "cos b - cos t"]) simp
  qed
  then show ?thesis by simp
qed

lemma cos_diff_lower:
  fixes a b :: real
  assumes "0 \<le> a" "a \<le> b" "b \<le> pi / 2"
  shows "(b - a) * sin a \<le> cos a - cos b"
proof -
  have "(\<lambda>t. cos a - cos t - (t - a) * sin a) a \<le> (\<lambda>t. cos a - cos t - (t - a) * sin a) b"
  proof (rule DERIV_nonneg_imp_nondecreasing [OF assms(2)])
    fix t :: real assume t: "a \<le> t" "t \<le> b"
    have "((\<lambda>t. cos a - cos t - (t - a) * sin a) has_real_derivative (sin t - sin a)) (at t)"
      by (auto intro!: derivative_eq_intros)
    moreover have "sin a \<le> sin t"
      using assms t by (intro sin_monotone_2pi_le) linarith+
    ultimately show "\<exists>y. ((\<lambda>t. cos a - cos t - (t - a) * sin a) has_real_derivative y) (at t)
        \<and> 0 \<le> y"
      by (intro exI [of _ "sin t - sin a"]) simp
  qed
  then show ?thesis by simp
qed

lemma cos_diff_bounded:
  fixes t x e S :: real
  assumes "t \<le> x" and S: "\<And>s. t \<le> s \<Longrightarrow> s \<le> x \<Longrightarrow> e * sin s \<le> S"
  shows "e * (cos t - cos x) \<le> S * (x - t)"
proof -
  have "(\<lambda>s. S * (s - t) - e * (cos t - cos s)) t \<le> (\<lambda>s. S * (s - t) - e * (cos t - cos s)) x"
  proof (rule DERIV_nonneg_imp_nondecreasing [OF assms(1)])
    fix s :: real assume s: "t \<le> s" "s \<le> x"
    have "((\<lambda>s. S * (s - t) - e * (cos t - cos s)) has_real_derivative (S - e * sin s)) (at s)"
      by (auto intro!: derivative_eq_intros)
    moreover have "0 \<le> S - e * sin s" using S [OF s] by simp
    ultimately show "\<exists>y. ((\<lambda>s. S * (s - t) - e * (cos t - cos s)) has_real_derivative y) (at s)
        \<and> 0 \<le> y"
      by blast
  qed
  then show ?thesis by simp
qed

lemma newton_second_order:
  fixes r x e S :: real
  assumes "r \<le> x" and S: "\<And>s. r \<le> s \<Longrightarrow> s \<le> x \<Longrightarrow> e * sin s \<le> S"
  shows "e * (sin x - sin r - (x - r) * cos x) \<le> S * (x - r)\<^sup>2 / 2"
proof -
  let ?phi = "\<lambda>t. e * (sin x - sin t - (x - t) * cos x) - S * (x - t)\<^sup>2 / 2"
  have "?phi r \<le> ?phi x"
  proof (rule DERIV_nonneg_imp_nondecreasing [OF assms(1)])
    fix t :: real assume t: "r \<le> t" "t \<le> x"
    have "(?phi has_real_derivative (e * (cos x - cos t) + S * (x - t))) (at t)"
      by (auto intro!: derivative_eq_intros simp: field_simps)
    moreover have "e * (cos t - cos x) \<le> S * (x - t)"
    proof (rule cos_diff_bounded [OF t(2)])
      fix s assume "t \<le> s" "s \<le> x"
      then show "e * sin s \<le> S" using S t(1) by simp
    qed
    then have "0 \<le> e * (cos x - cos t) + S * (x - t)" by (simp add: algebra_simps)
    ultimately show "\<exists>y. (?phi has_real_derivative y) (at t) \<and> 0 \<le> y" by blast
  qed
  then show ?thesis by simp
qed

subsubsection \<open>One step of Newton's iteration above the root\<close>

lemma kepler_root:
  fixes e m :: real
  assumes "0 \<le> e" "0 \<le> m" "m \<le> pi"
  shows "\<exists>r. m \<le> r \<and> r \<le> pi \<and> r - e * sin r - m = 0"
proof -
  have "\<exists>r\<ge>m. r \<le> pi \<and> (\<lambda>x. x - e * sin x - m) r = 0"
  proof (rule IVT')
    show "m - e * sin m - m \<le> 0" using assms sin_ge_zero [of m] by simp
    show "0 \<le> pi - e * sin pi - m" using assms by simp
    show "m \<le> pi" by fact
    show "continuous_on {m..pi} (\<lambda>x. x - e * sin x - m)" by (intro continuous_intros)
  qed
  then show ?thesis by blast
qed

lemma cos_nonpos: fixes x :: real assumes "pi / 2 \<le> x" "x \<le> pi" shows "cos x \<le> 0"
proof -
  have "cos x \<le> cos (pi / 2)" using assms by (intro cos_monotone_0_pi_le) simp_all
  then show ?thesis by simp
qed

lemma pi_half_gt: "6 / 5 < pi / 2"
proof (rule ccontr)
  assume "\<not> 6 / 5 < pi / 2"
  then have "pi / 2 \<le> 6 / 5" by simp
  moreover have "(6 / 5 :: real) \<le> pi" using pi_ge_two by simp
  ultimately have "cos (6 / 5 :: real) \<le> 0" by (rule cos_nonpos)
  moreover have "1 - (6 / 5)\<^sup>2 / 2 \<le> cos (6 / 5 :: real)" by (rule cos_lower2) simp
  ultimately show False by (simp add: power2_eq_square)
qed

lemma gp_pos: fixes e x :: real assumes "0 \<le> e" "e \<le> 9 / 10" shows "1 / 10 \<le> 1 - e * cos x"
proof -
  have "e * cos x \<le> e * 1" using assms(1) by (intro mult_left_mono) simp_all
  then show ?thesis using assms(2) by simp
qed

lemma newton_error:
  fixes e m r x :: real
  assumes e: "0 \<le> e" "e \<le> 9 / 10" and root: "r - e * sin r - m = 0"
  shows "(newtonKepler e m x - r) * (1 - e * cos x) = e * (sin x - sin r - (x - r) * cos x)"
proof -
  have gp: "1 - e * cos x \<noteq> 0" using gp_pos [OF e, of x] by simp
  have m: "m = r - e * sin r" using root by simp
  show ?thesis unfolding newtonKepler_def m using gp by (simp add: field_simps)
qed

lemma newton_mono:
  fixes e m r x :: real
  assumes e: "0 \<le> e" "e \<le> 9 / 10" and root: "r - e * sin r - m = 0"
    and rx: "0 \<le> r" "r \<le> x" "x \<le> pi"
  shows "r \<le> newtonKepler e m x" and "newtonKepler e m x \<le> x"
proof -
  have gp: "0 < 1 - e * cos x" using gp_pos [OF e, of x] by simp
  have "0 \<le> sin x - sin r - (x - r) * cos x" using sin_diff_lower [OF rx] by simp
  then have "0 \<le> e * (sin x - sin r - (x - r) * cos x)" using e(1) by simp
  then have "0 \<le> (newtonKepler e m x - r) * (1 - e * cos x)" unfolding newton_error [OF e root] .
  then have "0 \<le> newtonKepler e m x - r" using gp by (simp add: zero_le_mult_iff)
  then show "r \<le> newtonKepler e m x" by simp
  have "sin x - sin r \<le> (x - r) * cos r" by (rule sin_diff_upper [OF rx])
  also have "\<dots> \<le> (x - r) * 1" using rx(2) by (intro mult_left_mono) simp_all
  finally have d: "sin x - sin r \<le> x - r" by simp
  have "e * (sin x - sin r) \<le> 1 * (x - r)"
  proof (cases "0 \<le> sin x - sin r")
    case True
    have "e * (sin x - sin r) \<le> 1 * (sin x - sin r)" using e True by (intro mult_right_mono) simp_all
    then show ?thesis using d by simp
  next
    case False
    then have "e * (sin x - sin r) \<le> 0" using e(1) by (simp add: mult_le_0_iff)
    then show ?thesis using rx(2) by simp
  qed
  then have "m - x + e * sin x \<le> 0" using root by (simp add: algebra_simps)
  then have "(m - x + e * sin x) / (1 - e * cos x) \<le> 0" using gp by (simp add: divide_le_0_iff)
  then show "newtonKepler e m x \<le> x" unfolding newtonKepler_def by simp
qed

lemma newton_quadratic:
  fixes e m r x K :: real
  assumes e: "0 \<le> e" "e \<le> 9 / 10" and root: "r - e * sin r - m = 0"
    and rx: "r \<le> x"
    and S: "\<And>s. r \<le> s \<Longrightarrow> s \<le> x \<Longrightarrow> e * sin s \<le> 2 * K * (1 - e * cos x)"
  shows "newtonKepler e m x - r \<le> K * (x - r)\<^sup>2"
proof -
  have gp: "0 < 1 - e * cos x" using gp_pos [OF e, of x] by simp
  have "(newtonKepler e m x - r) * (1 - e * cos x) = e * (sin x - sin r - (x - r) * cos x)"
    by (rule newton_error [OF e root])
  also have "\<dots> \<le> 2 * K * (1 - e * cos x) * (x - r)\<^sup>2 / 2"
    by (rule newton_second_order [OF rx S])
  also have "\<dots> = K * (x - r)\<^sup>2 * (1 - e * cos x)" by simp
  finally show ?thesis using gp by simp
qed

lemma global_ratio:
  fixes e s x :: real
  assumes e: "0 \<le> e" "e \<le> 9 / 10" and sx: "0 \<le> s" "s \<le> x" "x \<le> pi"
  shows "e * sin s \<le> 2 * (1033 / 1000) * (1 - e * cos x)"
proof (cases "x \<le> pi / 2")
  case True
  define c where "c = cos x"
  define t where "t = sin x"
  have t0: "0 \<le> t" unfolding t_def using sx by (intro sin_ge_zero) linarith+
  have id: "t\<^sup>2 = 1 - c\<^sup>2" unfolding t_def c_def using sin_cos_squared_add [of x] by linarith
  have "sin s \<le> sin x" using sx True by (intro sin_monotone_2pi_le) linarith+
  then have 1: "e * sin s \<le> e * t" unfolding t_def using e(1) by (intro mult_left_mono)
  have e2: "e\<^sup>2 \<le> 81 / 100"
  proof -
    have "e * e \<le> (9 / 10) * (9 / 10)" using e by (intro mult_mono) simp_all
    then show ?thesis by (simp add: power2_eq_square)
  qed
  have A: "(1 - e * c)\<^sup>2 = (1 - e\<^sup>2) * t\<^sup>2 + (c - e)\<^sup>2"
    unfolding id by (simp add: power2_eq_square algebra_simps)
  have "(e * t)\<^sup>2 = e\<^sup>2 * t\<^sup>2" by (simp add: power_mult_distrib)
  also have "\<dots> \<le> (4268356 / 1000000 * (1 - e\<^sup>2)) * t\<^sup>2"
    using e2 by (intro mult_right_mono) simp_all
  also have "\<dots> \<le> 4268356 / 1000000 * ((1 - e\<^sup>2) * t\<^sup>2 + (c - e)\<^sup>2)"
  proof -
    have "0 \<le> 4268356 / 1000000 * (c - e)\<^sup>2" by simp
    moreover have "4268356 / 1000000 * ((1 - e\<^sup>2) * t\<^sup>2 + (c - e)\<^sup>2)
        = (4268356 / 1000000 * (1 - e\<^sup>2)) * t\<^sup>2 + 4268356 / 1000000 * (c - e)\<^sup>2"
      by (simp only: distrib_left mult.assoc)
    ultimately show ?thesis by linarith
  qed
  also have "\<dots> = (2 * (1033 / 1000) * (1 - e * c))\<^sup>2"
  proof -
    have "(2 * (1033 / 1000) * (1 - e * c))\<^sup>2 = (2 * (1033 / 1000))\<^sup>2 * (1 - e * c)\<^sup>2"
      by (rule power_mult_distrib)
    moreover have "(2 * (1033 / 1000) :: real)\<^sup>2 = 4268356 / 1000000"
      by (simp add: power2_eq_square)
    ultimately show ?thesis unfolding A [symmetric] by simp
  qed
  finally have "(e * t)\<^sup>2 \<le> (2 * (1033 / 1000) * (1 - e * c))\<^sup>2" .
  moreover have "0 \<le> 2 * (1033 / 1000) * (1 - e * c)"
    unfolding c_def using gp_pos [OF e, of x] by simp
  ultimately have "e * t \<le> 2 * (1033 / 1000) * (1 - e * c)" by (rule power2_le_imp_le)
  then show ?thesis using 1 unfolding c_def by linarith
next
  case False
  then have "cos x \<le> 0" using sx by (intro cos_nonpos) linarith+
  then have "e * cos x \<le> 0" using e(1) by (simp add: mult_le_0_iff)
  moreover have "e * sin s \<le> e * 1" using e(1) by (intro mult_left_mono) simp_all
  ultimately show ?thesis using e(2) by simp
qed

lemma local_ratio:
  fixes e s x b K :: real
  assumes e: "0 \<le> e" "e \<le> 9 / 10" and K: "9 / 20 \<le> K" and b: "0 \<le> b"
    and slope: "cos b \<le> 2 * K * sin b"
    and val: "9 / 10 * sin b + 9 / 5 * K * cos b \<le> 2 * K"
    and sx: "0 \<le> s" "s \<le> x" "b \<le> x" "x \<le> pi"
  shows "e * sin s \<le> 2 * K * (1 - e * cos x)"
proof (cases "x \<le> pi / 2")
  case True
  have s1: "sin x - sin b \<le> (x - b) * cos b"
    using b sx True by (intro sin_diff_upper) linarith+
  have c1: "(x - b) * sin b \<le> cos b - cos x" by (rule cos_diff_lower [OF b sx(3) True])
  have "(x - b) * (cos b - 2 * K * sin b) \<le> 0"
    using slope sx(3) by (simp add: mult_le_0_iff)
  then have "(x - b) * cos b \<le> 2 * K * ((x - b) * sin b)" by (simp add: algebra_simps)
  also have "\<dots> \<le> 2 * K * (cos b - cos x)" using c1 K by (intro mult_left_mono) simp_all
  finally have "sin x - sin b \<le> 2 * K * (cos b - cos x)" using s1 by linarith
  then have "sin x - sin b \<le> 2 * (K * cos b) - 2 * (K * cos x)" by (simp add: algebra_simps)
  moreover have "9 / 10 * sin b + 9 / 5 * (K * cos b) \<le> 2 * K" using val by simp
  ultimately have "9 / 10 * sin x + 9 / 5 * (K * cos x) \<le> 2 * K" by linarith
  then have h: "9 / 10 * sin x + 9 / 5 * K * cos x \<le> 2 * K" by simp
  have x0: "0 \<le> x" using sx by linarith
  have sinx: "0 \<le> sin x" using x0 sx(4) by (rule sin_ge_zero)
  have cosx: "0 \<le> cos x" using x0 True by (intro cos_ge_zero) linarith+
  have "sin s \<le> sin x" using sx True by (intro sin_monotone_2pi_le) linarith+
  then have "e * sin s \<le> e * sin x" using e(1) by (intro mult_left_mono)
  moreover have "e * (sin x + 2 * K * cos x) \<le> 9 / 10 * (sin x + 2 * K * cos x)"
    using e(2) sinx cosx K by (intro mult_right_mono) simp_all
  ultimately show ?thesis using h by (simp add: algebra_simps)
next
  case False
  then have "cos x \<le> 0" using sx by (intro cos_nonpos) linarith+
  then have "e * cos x \<le> 0" using e(1) by (simp add: mult_le_0_iff)
  then have "2 * K * 1 \<le> 2 * K * (1 - e * cos x)" using K by (intro mult_left_mono) simp_all
  then have a: "2 * K \<le> 2 * K * (1 - e * cos x)" by simp
  have "e * sin s \<le> e * 1" using e(1) by (intro mult_left_mono) simp_all
  then have "e * sin s \<le> e" by simp
  then show ?thesis using a e(2) K by linarith
qed

lemma ratio_facts:
  fixes b K :: real
  assumes "0 \<le> b" "0 \<le> K"
    and P1: "1 - b\<^sup>2 / 2 + b ^ 4 / 24 \<le> 2 * K * (b - b ^ 3 / 6)"
    and P2: "9 / 10 * (b - b ^ 3 / 6 + b ^ 5 / 120) + 9 / 5 * K * (1 - b\<^sup>2 / 2 + b ^ 4 / 24) \<le> 2 * K"
  shows "cos b \<le> 2 * K * sin b" and "9 / 10 * sin b + 9 / 5 * K * cos b \<le> 2 * K"
proof -
  have "2 * K * (b - b ^ 3 / 6) \<le> 2 * K * sin b"
    using sin_lower3 [OF assms(1)] assms(2) by (intro mult_left_mono) simp_all
  then show "cos b \<le> 2 * K * sin b" using cos_upper4 [OF assms(1)] P1 by linarith
  have "9 / 5 * K * cos b \<le> 9 / 5 * K * (1 - b\<^sup>2 / 2 + b ^ 4 / 24)"
    using cos_upper4 [OF assms(1)] assms(2) by (intro mult_left_mono) simp_all
  moreover have "9 / 10 * sin b \<le> 9 / 10 * (b - b ^ 3 / 6 + b ^ 5 / 120)"
    using sin_upper5 [OF assms(1)] by simp
  ultimately show "9 / 10 * sin b + 9 / 5 * K * cos b \<le> 2 * K" using P2 by linarith
qed

subsubsection \<open>The error bounds from pass to pass\<close>

lemma ratio_061: "cos (61 / 100) \<le> 2 * (983 / 1000) * sin (61 / 100 :: real)"
  "9 / 10 * sin (61 / 100) + 9 / 5 * (983 / 1000) * cos (61 / 100) \<le> 2 * (983 / 1000 :: real)"
  using ratio_facts [of "61 / 100" "983 / 1000"] by (simp_all add: power_divide)

lemma ratio_078: "cos (39 / 50) \<le> 2 * (22 / 25) * sin (39 / 50 :: real)"
  "9 / 10 * sin (39 / 50) + 9 / 5 * (22 / 25) * cos (39 / 50) \<le> 2 * (22 / 25 :: real)"
  using ratio_facts [of "39 / 50" "22 / 25"] by (simp_all add: power_divide)

lemma ratio_094: "cos (47 / 50) \<le> 2 * (777 / 1000) * sin (47 / 50 :: real)"
  "9 / 10 * sin (47 / 50) + 9 / 5 * (777 / 1000) * cos (47 / 50) \<le> 2 * (777 / 1000 :: real)"
  using ratio_facts [of "47 / 50" "777 / 1000"] by (simp_all add: power_divide)

lemma ratio_109: "cos (109 / 100) \<le> 2 * (687 / 1000) * sin (109 / 100 :: real)"
  "9 / 10 * sin (109 / 100) + 9 / 5 * (687 / 1000) * cos (109 / 100) \<le> 2 * (687 / 1000 :: real)"
  using ratio_facts [of "109 / 100" "687 / 1000"] by (simp_all add: power_divide)

lemma ratio_116: "cos (29 / 25) \<le> 2 * (81 / 125) * sin (29 / 25 :: real)"
  "9 / 10 * sin (29 / 25) + 9 / 5 * (81 / 125) * cos (29 / 25) \<le> 2 * (81 / 125 :: real)"
  using ratio_facts [of "29 / 25" "81 / 125"] by (simp_all add: power_divide)

lemma cell_local:
  fixes e m r x K b c \<beta> :: real
  assumes e: "0 \<le> e" "e \<le> 9 / 10" and root: "r - e * sin r - m = 0"
    and rx: "0 \<le> r" "r \<le> x" "x \<le> pi"
    and K: "9 / 20 \<le> K" and b: "0 \<le> b"
    and slope: "cos b \<le> 2 * K * sin b"
    and val: "9 / 10 * sin b + 9 / 5 * K * cos b \<le> 2 * K"
    and cell: "b \<le> x - r" "x - r \<le> c" and bound: "K * c\<^sup>2 \<le> \<beta>"
  shows "newtonKepler e m x - r \<le> \<beta>"
proof -
  have bx: "b \<le> x" using cell(1) rx(1) by linarith
  have "newtonKepler e m x - r \<le> K * (x - r)\<^sup>2"
  proof (rule newton_quadratic [OF e root rx(2)])
    fix s assume s: "r \<le> s" "s \<le> x"
    have "0 \<le> s" using s(1) rx(1) by linarith
    then show "e * sin s \<le> 2 * K * (1 - e * cos x)"
      by (rule local_ratio [OF e K b slope val _ s(2) bx rx(3)])
  qed
  also have "\<dots> \<le> K * c\<^sup>2"
  proof -
    have "(x - r)\<^sup>2 \<le> c\<^sup>2" using cell(2) rx(2) by (intro power_mono) simp_all
    then show ?thesis using K by (intro mult_left_mono) simp_all
  qed
  finally show ?thesis using bound by linarith
qed

lemma cell_global:
  fixes e m r x c \<beta> :: real
  assumes e: "0 \<le> e" "e \<le> 9 / 10" and root: "r - e * sin r - m = 0"
    and rx: "0 \<le> r" "r \<le> x" "x \<le> pi"
    and cell: "x - r \<le> c" and bound: "1033 / 1000 * c\<^sup>2 \<le> \<beta>"
  shows "newtonKepler e m x - r \<le> \<beta>"
proof -
  have "newtonKepler e m x - r \<le> 1033 / 1000 * (x - r)\<^sup>2"
  proof (rule newton_quadratic [OF e root rx(2)])
    fix s assume s: "r \<le> s" "s \<le> x"
    have "0 \<le> s" using s(1) rx(1) by linarith
    then show "e * sin s \<le> 2 * (1033 / 1000) * (1 - e * cos x)"
      by (rule global_ratio [OF e _ s(2) rx(3)])
  qed
  also have "\<dots> \<le> 1033 / 1000 * c\<^sup>2"
  proof -
    have "(x - r)\<^sup>2 \<le> c\<^sup>2" using cell rx(2) by (intro power_mono) simp_all
    then show ?thesis by (intro mult_left_mono) simp_all
  qed
  finally show ?thesis using bound by linarith
qed

lemma chain_step:
  fixes e m r x :: real
  assumes e: "0 \<le> e" "e \<le> 9 / 10" and root: "r - e * sin r - m = 0"
    and rx: "0 \<le> r" "r \<le> x" "x \<le> pi"
    and err: "x - r \<le> newtonErrorBound k"
  shows "newtonKepler e m x - r \<le> newtonErrorBound (Suc k)"
proof -
  note glob = cell_global [OF e root rx]
  note loc = cell_local [OF e root rx]
  have keep: "newtonKepler e m x - r \<le> x - r" using newton_mono(2) [OF e root rx] by simp
  consider "k = 0" | "k = 1" | "k = 2" | "k = 3" | "k = 4" | "k = 5" | "k = 6" | "k = 7" | "8 \<le> k"
    by linarith
  then show ?thesis
  proof cases
    case 1
    then have le: "x - r \<le> 6 / 5" using err by (simp add: newtonErrorBound_def)
    have "newtonKepler e m x - r \<le> 47 / 50"
    proof (cases "x - r \<le> 47 / 50")
      case True
      then show ?thesis using keep by linarith
    next
      case a: False
      show ?thesis
      proof (cases "x - r \<le> 109 / 100")
        case True
        show ?thesis
          by (rule loc [OF _ _ ratio_094 _ True]) (use a in \<open>simp_all add: power2_eq_square\<close>)
      next
        case b: False
        show ?thesis
        proof (cases "x - r \<le> 29 / 25")
          case True
          show ?thesis
            by (rule loc [OF _ _ ratio_109 _ True]) (use b in \<open>simp_all add: power2_eq_square\<close>)
        next
          case False
          show ?thesis
            by (rule loc [OF _ _ ratio_116 _ le]) (use False in \<open>simp_all add: power2_eq_square\<close>)
        qed
      qed
    qed
    then show ?thesis using 1 by (simp add: newtonErrorBound_def)
  next
    case 2
    then have le: "x - r \<le> 47 / 50" using err by (simp add: newtonErrorBound_def)
    have "newtonKepler e m x - r \<le> 39 / 50"
    proof (cases "x - r \<le> 39 / 50")
      case True
      then show ?thesis using keep by linarith
    next
      case False
      show ?thesis
        by (rule loc [OF _ _ ratio_078 _ le]) (use False in \<open>simp_all add: power2_eq_square\<close>)
    qed
    then show ?thesis using 2 by (simp add: newtonErrorBound_def)
  next
    case 3
    then have le: "x - r \<le> 39 / 50" using err by (simp add: newtonErrorBound_def)
    have "newtonKepler e m x - r \<le> 61 / 100"
    proof (cases "x - r \<le> 61 / 100")
      case True
      then show ?thesis using keep by linarith
    next
      case False
      show ?thesis
        by (rule loc [OF _ _ ratio_061 _ le]) (use False in \<open>simp_all add: power2_eq_square\<close>)
    qed
    then show ?thesis using 3 by (simp add: newtonErrorBound_def)
  next
    case 4
    then have le: "x - r \<le> 61 / 100" using err by (simp add: newtonErrorBound_def)
    have "newtonKepler e m x - r \<le> 39 / 100"
      by (rule glob [OF le]) (simp add: power2_eq_square)
    then show ?thesis using 4 by (simp add: newtonErrorBound_def)
  next
    case 5
    then have le: "x - r \<le> 39 / 100" using err by (simp add: newtonErrorBound_def)
    have "newtonKepler e m x - r \<le> 4 / 25"
      by (rule glob [OF le]) (simp add: power2_eq_square)
    then show ?thesis using 5 by (simp add: newtonErrorBound_def)
  next
    case 6
    then have le: "x - r \<le> 4 / 25" using err by (simp add: newtonErrorBound_def)
    have "newtonKepler e m x - r \<le> 27 / 1000"
      by (rule glob [OF le]) (simp add: power2_eq_square)
    then show ?thesis using 6 by (simp add: newtonErrorBound_def)
  next
    case 7
    then have le: "x - r \<le> 27 / 1000" using err by (simp add: newtonErrorBound_def)
    have "newtonKepler e m x - r \<le> 1 / 1250"
      by (rule glob [OF le]) (simp add: power2_eq_square)
    then show ?thesis using 7 by (simp add: newtonErrorBound_def)
  next
    case 8
    then have le: "x - r \<le> 1 / 1250" using err by (simp add: newtonErrorBound_def)
    have "newtonKepler e m x - r \<le> 1 / 1000000"
      by (rule glob [OF le]) (simp add: power2_eq_square)
    then show ?thesis using 8 by (simp add: newtonErrorBound_def)
  next
    case 9
    then have "x - r \<le> 1 / 1000000" using err by (simp add: newtonErrorBound_def)
    then have "newtonKepler e m x - r \<le> 1 / 1000000" using keep by linarith
    then show ?thesis using 9 by (simp add: newtonErrorBound_def)
  qed
qed

subsubsection \<open>The loop in degrees\<close>

lemma toRadians_add: "toRadians (a + b) = toRadians a + toRadians b"
  by (simp add: toRadians_def algebra_simps)

lemma toRadians_keplerStep:
  "toRadians (keplerStep ecc M E)
     = (toRadians M - toRadians E + ecc * sin (toRadians E)) / (1 - ecc * cos (toRadians E))"
proof -
  have num: "toRadians (M - E + toDegrees y) = toRadians M - toRadians E + y" for y
    by (simp add: toRadians_def toDegrees_def DEG_TO_RAD_def RAD_TO_DEG_def algebra_simps)
  have quot: "toRadians (a / g) = toRadians a / g" for a g by (simp add: toRadians_def)
  show ?thesis unfolding keplerStep_def Let_def quot num ..
qed

lemma toRadians_next:
  "toRadians (E + keplerStep ecc M E) = newtonKepler ecc (toRadians M) (toRadians E)"
  unfolding toRadians_add toRadians_keplerStep newtonKepler_def ..

lemma small_correction:
  assumes "\<bar>toRadians d\<bar> \<le> 1 / 1000000"
  shows "\<bar>d\<bar> < 0.0001"
proof -
  have "\<bar>d\<bar> * pi \<le> 180 / 1000000"
    using assms by (simp add: toRadians_def DEG_TO_RAD_def abs_mult field_simps)
  moreover have "\<bar>d\<bar> * 2 \<le> \<bar>d\<bar> * pi" using pi_ge_two by (intro mult_left_mono) simp_all
  ultimately show ?thesis by simp
qed

lemma keplerBreak_phase:
  assumes e: "0 \<le> ecc" "ecc \<le> 9 / 10"
    and root: "r - ecc * sin r - toRadians M = 0" and r0: "0 \<le> r"
  shows "1 \<le> n \<Longrightarrow> 9 \<le> n + k \<Longrightarrow> r \<le> toRadians E \<Longrightarrow> toRadians E \<le> pi
           \<Longrightarrow> toRadians E - r \<le> newtonErrorBound k \<Longrightarrow> keplerBreak n ecc M E"
proof (induction n arbitrary: E k)
  case 0
  then show ?case by simp
next
  case (Suc n)
  define x where "x = toRadians E"
  define x' where "x' = newtonKepler ecc (toRadians M) x"
  have rx: "r \<le> x" "x \<le> pi" and err: "x - r \<le> newtonErrorBound k"
    using Suc.prems unfolding x_def by simp_all
  have lo: "r \<le> x'" and hi: "x' \<le> x"
    unfolding x'_def by (rule newton_mono [OF e root r0 rx])+
  have err': "x' - r \<le> newtonErrorBound (Suc k)"
    unfolding x'_def by (rule chain_step [OF e root r0 rx err])
  have next_rad: "toRadians (E + keplerStep ecc M E) = x'"
    unfolding x'_def x_def by (rule toRadians_next)
  have step_rad: "toRadians (keplerStep ecc M E) = x' - x"
    using next_rad unfolding toRadians_add x_def by simp
  show ?case
  proof (cases "\<bar>keplerStep ecc M E\<bar> < 0.0001")
    case True
    then show ?thesis by (simp add: Let_def)
  next
    case False
    have k7: "k \<le> 7"
    proof (rule ccontr)
      assume "\<not> k \<le> 7"
      then have "newtonErrorBound k = 1 / 1000000" by (simp add: newtonErrorBound_def)
      then have "x - r \<le> 1 / 1000000" using err by simp
      then have "\<bar>x' - x\<bar> \<le> 1 / 1000000" using lo hi by linarith
      then have "\<bar>keplerStep ecc M E\<bar> < 0.0001"
        unfolding step_rad [symmetric] by (rule small_correction)
      then show False using False by simp
    qed
    then have n1: "1 \<le> n" and sum: "9 \<le> n + Suc k" using Suc.prems(2) by linarith+
    have "keplerBreak n ecc M (E + keplerStep ecc M E)"
    proof (rule Suc.IH [OF n1 sum])
      show "r \<le> toRadians (E + keplerStep ecc M E)" unfolding next_rad by (rule lo)
      show "toRadians (E + keplerStep ecc M E) \<le> pi" unfolding next_rad using hi rx(2) by linarith
      show "toRadians (E + keplerStep ecc M E) - r \<le> newtonErrorBound (Suc k)"
        unfolding next_rad by (rule err')
    qed
    then show ?thesis using False by (simp add: Let_def)
  qed
qed

subsubsection \<open>The first pass\<close>

lemma first_step_certificate:
  fixes u v :: real
  assumes "u\<^sup>2 + v\<^sup>2 \<le> 81 / 100"
  shows "u * v \<le> 6 / 5 * (1 - u + v\<^sup>2)"
proof -
  have id: "6 / 5 * (1 - u + v\<^sup>2) - u * v
      = 4 / 5 * (81 / 100 - (u\<^sup>2 + v\<^sup>2)) + 2 * (v - u / 4)\<^sup>2 + 27 / 40 * (u - 8 / 9)\<^sup>2 + 7 / 375"
    by (simp add: power2_eq_square field_simps)
  have "0 \<le> 4 / 5 * (81 / 100 - (u\<^sup>2 + v\<^sup>2))" using assms by simp
  moreover have "0 \<le> 2 * (v - u / 4)\<^sup>2" by simp
  moreover have "0 \<le> 27 / 40 * (u - 8 / 9)\<^sup>2" by simp
  ultimately have "0 \<le> 6 / 5 * (1 - u + v\<^sup>2) - u * v" unfolding id by linarith
  then show ?thesis by simp
qed

lemma start_above:
  fixes e m r :: real
  assumes e: "0 \<le> e" "e \<le> 9 / 10" and m: "0 \<le> m" "m \<le> pi" and mr: "m \<le> r"
  shows "m + e * sin m \<le> pi" and "m + e * sin m - r \<le> 6 / 5"
proof -
  have s0: "0 \<le> sin m" using m by (rule sin_ge_zero)
  have "sin m = sin (pi - m)" by simp
  also have "\<dots> \<le> pi - m" using m(2) by (intro sin_x_le_x) simp
  finally have s1: "sin m \<le> pi - m" .
  have "e * sin m \<le> 1 * sin m" using e s0 by (intro mult_right_mono) simp_all
  then show "m + e * sin m \<le> pi" using s1 by simp
  have "e * sin m \<le> e * 1" using e(1) by (intro mult_left_mono) simp_all
  then show "m + e * sin m - r \<le> 6 / 5" using e(2) mr by simp
qed

lemma start_below:
  fixes e m r :: real
  assumes e: "0 \<le> e" "e \<le> 9 / 10" and m: "0 \<le> m" "m \<le> pi"
    and root: "r - e * sin r - m = 0" and r: "r \<le> pi"
    and below: "m + e * sin m < r"
  shows "r \<le> newtonKepler e m (m + e * sin m)"
    and "newtonKepler e m (m + e * sin m) \<le> pi"
    and "newtonKepler e m (m + e * sin m) - r \<le> 6 / 5"
proof -
  define x0 where "x0 = m + e * sin m"
  define gp where "gp = 1 - e * cos x0"
  define num where "num = m - x0 + e * sin x0"
  have s0: "0 \<le> sin m" using m by (rule sin_ge_zero)
  have mx: "m \<le> x0" unfolding x0_def using e(1) s0 by simp
  have x0: "0 \<le> x0" "x0 \<le> r" "x0 \<le> pi" using mx m(1) below r unfolding x0_def by linarith+
  have gp: "1 / 10 \<le> gp" unfolding gp_def by (rule gp_pos [OF e])
  then have gp0: "0 < gp" by simp
  have nk: "newtonKepler e m x0 = x0 + num / gp" unfolding newtonKepler_def num_def gp_def ..
  have num: "num = e * (sin x0 - sin m)" unfolding num_def x0_def by (simp add: algebra_simps)
  have sx0: "0 \<le> sin x0" using x0(1,3) by (rule sin_ge_zero)
  \<comment> \<open>the first iterate is not below the root\<close>
  have "sin r - sin x0 \<le> (r - x0) * cos x0" by (rule sin_diff_upper [OF x0(1,2) r])
  then have "0 \<le> sin x0 - sin r - (x0 - r) * cos x0" by (simp add: algebra_simps)
  then have "0 \<le> e * (sin x0 - sin r - (x0 - r) * cos x0)" using e(1) by simp
  then have "0 \<le> (newtonKepler e m x0 - r) * gp"
    unfolding gp_def newton_error [OF e root] .
  then have lo: "r \<le> newtonKepler e m x0" using gp0 by (simp add: zero_le_mult_iff)
  \<comment> \<open>the first correction is at most 6/5, and the first iterate at most pi\<close>
  have step: "num / gp \<le> 6 / 5 \<and> x0 + num / gp \<le> pi"
  proof (cases "pi / 2 \<le> x0")
    case True
    have "cos x0 \<le> 0" by (rule cos_nonpos [OF True x0(3)])
    then have "e * cos x0 \<le> 0" using e(1) by (simp add: mult_le_0_iff)
    then have gp1: "1 \<le> gp" unfolding gp_def by simp
    have "e * (sin x0 - sin m) \<le> e * sin x0" using e(1) s0 by (intro mult_left_mono) simp_all
    also have "\<dots> \<le> 1 * sin x0" using e sx0 by (intro mult_right_mono) simp_all
    also have "\<dots> \<le> sin x0 * gp" using gp1 sx0 mult_left_mono [of 1 gp "sin x0"] by simp
    finally have "num \<le> sin x0 * gp" unfolding num .
    then have d: "num / gp \<le> sin x0" using gp0 by (simp add: pos_divide_le_eq)
    have "sin x0 = sin (pi - x0)" by simp
    also have "\<dots> \<le> pi - x0" using x0(3) by (intro sin_x_le_x) simp
    finally have "sin x0 \<le> pi - x0" .
    moreover have "sin x0 \<le> 1" by simp
    ultimately show ?thesis using d by linarith
  next
    case False
    then have half: "x0 \<le> pi / 2" by simp
    define u where "u = e * cos m"
    define v where "v = e * sin m"
    have xm: "x0 - m = v" unfolding x0_def v_def by simp
    have "sin x0 - sin m \<le> (x0 - m) * cos m" by (rule sin_diff_upper [OF m(1) mx x0(3)])
    then have "e * (sin x0 - sin m) \<le> e * ((x0 - m) * cos m)" using e(1) by (intro mult_left_mono)
    then have n1: "num \<le> u * v" unfolding num xm u_def by (simp add: algebra_simps)
    have "(x0 - m) * sin m \<le> cos m - cos x0" by (rule cos_diff_lower [OF m(1) mx half])
    then have "e * ((x0 - m) * sin m) \<le> e * (cos m - cos x0)" using e(1) by (intro mult_left_mono)
    then have "v * v \<le> u - e * cos x0" unfolding xm u_def v_def by (simp add: algebra_simps)
    then have g1: "1 - u + v\<^sup>2 \<le> gp" unfolding gp_def by (simp add: power2_eq_square)
    have "u\<^sup>2 + v\<^sup>2 = e\<^sup>2 * (cos m)\<^sup>2 + e\<^sup>2 * (sin m)\<^sup>2"
      unfolding u_def v_def by (simp only: power_mult_distrib)
    also have "\<dots> = e\<^sup>2 * ((cos m)\<^sup>2 + (sin m)\<^sup>2)" by (simp only: distrib_left)
    also have "\<dots> = e\<^sup>2" by simp
    also have "\<dots> \<le> (9 / 10)\<^sup>2" using e by (intro power_mono) simp_all
    finally have "u\<^sup>2 + v\<^sup>2 \<le> 81 / 100" by (simp add: power2_eq_square)
    then have "u * v \<le> 6 / 5 * (1 - u + v\<^sup>2)" by (rule first_step_certificate)
    also have "\<dots> \<le> 6 / 5 * gp" using g1 by simp
    finally have "num \<le> 6 / 5 * gp" using n1 by linarith
    then have d: "num / gp \<le> 6 / 5" using gp0 by (simp add: pos_divide_le_eq)
    then show ?thesis using half pi_half_gt by linarith
  qed
  show "r \<le> newtonKepler e m (m + e * sin m)" using lo unfolding x0_def .
  show "newtonKepler e m (m + e * sin m) \<le> pi" using step unfolding nk [unfolded x0_def] x0_def by simp
  have "newtonKepler e m x0 - r \<le> num / gp" unfolding nk using below unfolding x0_def by simp
  then show "newtonKepler e m (m + e * sin m) - r \<le> 6 / 5" using step unfolding x0_def by linarith
qed

subsubsection \<open>The loop from its start\<close>

lemma toRadians_start:
  "toRadians (M + toDegrees ecc * sin (toRadians M)) = toRadians M + ecc * sin (toRadians M)"
  by (simp add: toRadians_def toDegrees_def DEG_TO_RAD_def RAD_TO_DEG_def algebra_simps)

lemma keplerBreak_half:
  assumes e: "0 \<le> ecc" "ecc \<le> 9 / 10" and M: "0 \<le> M" "M \<le> 180"
  shows "keplerBreak 10 ecc M (M + toDegrees ecc * sin (toRadians M))"
proof -
  define m where "m = toRadians M"
  define E0 where "E0 = M + toDegrees ecc * sin (toRadians M)"
  have m: "0 \<le> m" "m \<le> pi" using M unfolding m_def toRadians_def DEG_TO_RAD_def by simp_all
  obtain r where r: "m \<le> r" "r \<le> pi" and root: "r - ecc * sin r - m = 0"
    using kepler_root [OF e(1) m] by blast
  have r0: "0 \<le> r" using r(1) m(1) by linarith
  have start: "toRadians E0 = m + ecc * sin m" unfolding E0_def m_def by (rule toRadians_start)
  have ten: "(10::nat) = Suc 9" by simp
  have "keplerBreak 10 ecc M E0"
  proof (cases "r \<le> m + ecc * sin m")
    case True
    show ?thesis
    proof (rule keplerBreak_phase [OF e root [unfolded m_def] r0, where k = 0])
      show "r \<le> toRadians E0" unfolding start by (rule True)
      show "toRadians E0 \<le> pi" unfolding start by (rule start_above(1) [OF e m r(1)])
      show "toRadians E0 - r \<le> newtonErrorBound 0"
        unfolding start using start_above(2) [OF e m r(1)] by (simp add: newtonErrorBound_def)
    qed simp_all
  next
    case False
    then have below: "m + ecc * sin m < r" by simp
    note sb = start_below [OF e m root r(2) below]
    have next_rad: "toRadians (E0 + keplerStep ecc M E0) = newtonKepler ecc m (m + ecc * sin m)"
      unfolding toRadians_next start m_def ..
    have "keplerBreak 9 ecc M (E0 + keplerStep ecc M E0)"
    proof (rule keplerBreak_phase [OF e root [unfolded m_def] r0, where k = 0])
      show "r \<le> toRadians (E0 + keplerStep ecc M E0)" unfolding next_rad by (rule sb(1))
      show "toRadians (E0 + keplerStep ecc M E0) \<le> pi" unfolding next_rad by (rule sb(2))
      show "toRadians (E0 + keplerStep ecc M E0) - r \<le> newtonErrorBound 0"
        unfolding next_rad using sb(3) by (simp add: newtonErrorBound_def)
    qed simp_all
    then have "keplerBreak (Suc 9) ecc M E0" unfolding keplerBreak.simps Let_def by simp
    then show ?thesis unfolding ten .
  qed
  then show ?thesis unfolding E0_def .
qed

lemma keplerStep_mirror: "keplerStep ecc (360 - M) (360 - E) = - keplerStep ecc M E"
proof -
  have rad: "toRadians (360 - E) = 2 * pi - toRadians E"
    by (simp add: toRadians_def DEG_TO_RAD_def algebra_simps)
  have neg: "toDegrees (ecc * - y) = - toDegrees (ecc * y)" for y by (simp add: toDegrees_def)
  have "keplerStep ecc (360 - M) (360 - E)
      = (- (M - E + toDegrees (ecc * sin (toRadians E)))) / (1 - ecc * cos (toRadians E))"
    unfolding keplerStep_def Let_def rad sin_2pi_minus cos_2pi_minus neg by simp
  also have "\<dots> = - ((M - E + toDegrees (ecc * sin (toRadians E))) / (1 - ecc * cos (toRadians E)))"
    by (rule minus_divide_left [symmetric])
  also have "\<dots> = - keplerStep ecc M E" unfolding keplerStep_def Let_def ..
  finally show ?thesis .
qed

lemma keplerBreak_mirror: "keplerBreak n ecc (360 - M) (360 - E) = keplerBreak n ecc M E"
proof (induction n arbitrary: E)
  case 0
  show ?case by simp
next
  case (Suc n)
  have eq: "360 - E + keplerStep ecc (360 - M) (360 - E) = 360 - (E + keplerStep ecc M E)"
    by (simp add: keplerStep_mirror)
  have ab: "\<bar>keplerStep ecc (360 - M) (360 - E)\<bar> = \<bar>keplerStep ecc M E\<bar>"
    by (simp add: keplerStep_mirror)
  show ?case unfolding keplerBreak.simps Let_def eq ab Suc.IH ..
qed


lemma keplerBreak_keplerLoop:
  "keplerBreak n ecc M E \<Longrightarrow>
     \<exists>E'. keplerLoop n ecc M E = E' + keplerStep ecc M E' \<and> \<bar>keplerStep ecc M E'\<bar> < 0.0001"
proof (induction n arbitrary: E)
  case 0
  then show ?case by simp
next
  case (Suc n)
  show ?case
  proof (cases "\<bar>keplerStep ecc M E\<bar> < 0.0001")
    case True
    then have "keplerLoop (Suc n) ecc M E = E + keplerStep ecc M E" by (simp add: Let_def)
    then show ?thesis using True by blast
  next
    case False
    then have "keplerBreak n ecc M (E + keplerStep ecc M E)" using Suc.prems by (simp add: Let_def)
    then obtain E' where "keplerLoop n ecc M (E + keplerStep ecc M E) = E' + keplerStep ecc M E'"
      "\<bar>keplerStep ecc M E'\<bar> < 0.0001"
      using Suc.IH by blast
    moreover have "keplerLoop (Suc n) ecc M E = keplerLoop n ecc M (E + keplerStep ecc M E)"
      using False by (simp add: Let_def)
    ultimately show ?thesis by metis
  qed
qed

text \<open>
  C5 holds of the program, numbers taken as reals. For every eccentricity \<open>0 \<le> e < 0.9\<close>
  (that of an orbit is not negative) and every mean anomaly \<open>0 \<le> M < 360\<close>, the loop
  started from \<open>E\<^sub>0 = M + toDegrees e * sin M\<close> leaves through its \<^verbatim>\<open>break\<close> within its 10
  passes: one of them has \<open>\<bar>dE\<bar> < 0.0001\<close> degrees, and the value of the loop is the
  iterate that this correction was added to, plus the correction.
\<close>

theorem keplerLoop_converges:
  assumes "0 \<le> ecc" "ecc < 0.9" "0 \<le> M" "M < 360"
  shows "keplerBreak 10 ecc M (M + toDegrees ecc * sin (toRadians M))
         \<and> (\<exists>E'. keplerLoop 10 ecc M (M + toDegrees ecc * sin (toRadians M))
                     = E' + keplerStep ecc M E' \<and> \<bar>keplerStep ecc M E'\<bar> < 0.0001)"
proof -
  have br: "keplerBreak 10 ecc M (M + toDegrees ecc * sin (toRadians M))"
  proof (cases "M \<le> 180")
    case True
    show ?thesis by (rule keplerBreak_half) (use assms True in simp_all)
  next
    case False
    have rad: "toRadians (360 - M) = 2 * pi - toRadians M"
      by (simp add: toRadians_def DEG_TO_RAD_def algebra_simps)
    have "keplerBreak 10 ecc (360 - M) (360 - M + toDegrees ecc * sin (toRadians (360 - M)))"
      by (rule keplerBreak_half) (use assms False in simp_all)
    moreover have "360 - M + toDegrees ecc * sin (toRadians (360 - M))
        = 360 - (M + toDegrees ecc * sin (toRadians M))"
      unfolding rad sin_2pi_minus by simp
    ultimately show ?thesis by (simp only: keplerBreak_mirror)
  qed
  moreover have "\<exists>E'. keplerLoop 10 ecc M (M + toDegrees ecc * sin (toRadians M))
                 = E' + keplerStep ecc M E' \<and> \<bar>keplerStep ecc M E'\<bar> < 0.0001"
    by (rule keplerBreak_keplerLoop [OF br])
  ultimately show ?thesis by (rule conjI)
qed

theorem keplerLoop_converges_witness:
  "keplerBreak 10 (1 / 5) 90 (90 + toDegrees (1 / 5) * sin (toRadians 90))
   \<and> (\<exists>E'. keplerLoop 10 (1 / 5) 90 (90 + toDegrees (1 / 5) * sin (toRadians 90))
                 = E' + keplerStep (1 / 5) 90 E' \<and> \<bar>keplerStep (1 / 5) 90 E'\<bar> < 0.0001)"
  using keplerLoop_converges [of "1 / 5" 90] by simp


end
